theory Spec2Isabelle
  imports Complex_Main "HOL-Library.Multiset"
begin

section \<open>Data model of the database-backed zombie game\<close>

text \<open>
  The agents of \<^verbatim>\<open>zombie_game_threaded.py\<close> are dictionaries read from the rows of the
  \<^verbatim>\<open>agents\<close> table of \<^verbatim>\<open>zombie_db_layer.py\<close>. A row is a record with one field per
  column the game reads; the columns \<^verbatim>\<open>name\<close>, \<^verbatim>\<open>x\<close> and \<^verbatim>\<open>y\<close> are the fields
  \<open>agent_name\<close>, \<open>agent_x\<close> and \<open>agent_y\<close>. The JSON column \<^verbatim>\<open>role_data\<close> is a
  dictionary with optional keys. Python's integers are \<open>int\<close>. Python's floats are
  modelled by exact rationals: the constants of the game are \<open>0.5\<close>, \<open>1.5\<close>, \<open>2.0\<close>,
  \<open>2.5\<close> (exact in binary) and \<open>0.6\<close>, \<open>0.2\<close>, \<open>0.3\<close>, which are only multiplied with or
  compared to small integers.
\<close>

record role_dict =
  heal_charges :: "int option"
  heal_amount :: "rat option"
  attack_multiplier :: "rat option"
  critical_chance :: "rat option"
  movement_range :: "rat option"

record agent =
  agent_id :: int
  agent_name :: string
  agent_type :: string
  health :: int
  max_health :: int
  attack_power :: int
  base_attack_power :: int
  is_alive :: bool
  agent_x :: int
  agent_y :: int
  role_name :: "string option"
  role_data :: role_dict

record item =
  item_id :: int
  item_type :: string
  item_x :: int
  item_y :: int
  picked_up :: bool
  picked_by_agent_id :: "int option"

text \<open>The dictionary \<^verbatim>\<open>calculate_attack\<close> returns, and a row of \<^verbatim>\<open>combat_log\<close>.\<close>

record combat =
  attacker_id :: int
  target_id :: int
  damage :: int
  was_critical :: bool

type_synonym log_row = "int \<times> combat"

datatype error = ValueError

definition empty_role_data :: role_dict where
  "empty_role_data =
     \<lparr>heal_charges = None, heal_amount = None, attack_multiplier = None,
      critical_chance = None, movement_range = None\<rparr>"

section \<open>Python primitives\<close>

text \<open>\<^verbatim>\<open>int(f)\<close> on a float truncates toward zero.\<close>

definition py_int :: "rat \<Rightarrow> int" where
  "py_int r = (if r < 0 then - \<lfloor>- r\<rfloor> else \<lfloor>r\<rfloor>)"

text \<open>
  The module \<^verbatim>\<open>random\<close> is not part of the repository. A call consumes one raw draw
  \<open>n\<close>, a natural number: \<^verbatim>\<open>random.random()\<close> is a 53-bit fraction in \<open>[0, 1)\<close>, and
  \<^verbatim>\<open>random.randint(a, b)\<close> is some integer of \<open>[a, b]\<close>, or raises \<^verbatim>\<open>ValueError\<close> when
  the range is empty. Every worker receives its draws as a function from the index of
  the call to the raw draw.
\<close>

definition random_random :: "nat \<Rightarrow> rat" where
  "random_random n = of_nat (n mod 2 ^ 53) / 2 ^ 53"

definition randint :: "nat \<Rightarrow> int \<Rightarrow> int \<Rightarrow> error + int" where
  "randint n a b =
     (if b < a then Inl ValueError else Inr (a + int (n mod nat (b - a + 1))))"

section \<open>Combat resolution\<close>

text \<open>
  \<^verbatim>\<open>GameDBThreaded.calculate_attack\<close>: \<open>None\<close> is the miss of a zombie. The zombie's
  miss roll is draw 0 when it is made; the damage roll and the Hunter's critical roll
  follow.
\<close>

definition calculate_attack :: "agent \<Rightarrow> agent \<Rightarrow> (nat \<Rightarrow> nat) \<Rightarrow> error + combat option" where
  "calculate_attack attacker target draws =
     (let i = (if agent_type attacker = ''Zombie'' then 1 else 0 :: nat) in
      if agent_type attacker = ''Zombie'' \<and> random_random (draws 0) < 2 / 10 then Inr None
      else
        case randint (draws i)
               (py_int (of_int (attack_power attacker) * (5 / 10)))
               (attack_power attacker) of
          Inl e \<Rightarrow> Inl e
        | Inr base \<Rightarrow>
            let multiplier =
                  (case attack_multiplier (role_data attacker) of
                     None \<Rightarrow> 1 | Some m \<Rightarrow> m);
                critical =
                  (role_name attacker = Some ''Hunter'' \<and>
                   random_random (draws (Suc i)) < 3 / 10);
                multiplier' = (if critical then multiplier * (15 / 10) else multiplier)
            in Inr (Some \<lparr>attacker_id = agent_id attacker,
                          target_id = agent_id target,
                          damage = py_int (of_int base * multiplier'),
                          was_critical = critical\<rparr>))"

text \<open>The rows \<^verbatim>\<open>spawn_agents\<close> inserts, at a position.\<close>

definition spawn_human :: "int \<Rightarrow> string \<Rightarrow> int \<Rightarrow> int \<Rightarrow> agent" where
  "spawn_human i n px py =
     \<lparr>agent_id = i, agent_name = n, agent_type = ''Human'', health = 100,
      max_health = 100, attack_power = 20, base_attack_power = 20, is_alive = True,
      agent_x = px, agent_y = py, role_name = None, role_data = empty_role_data\<rparr>"

definition spawn_zombie :: "int \<Rightarrow> string \<Rightarrow> int \<Rightarrow> int \<Rightarrow> string option \<Rightarrow> role_dict \<Rightarrow> agent" where
  "spawn_zombie i n px py r rd =
     \<lparr>agent_id = i, agent_name = n, agent_type = ''Zombie'', health = 80,
      max_health = 80, attack_power = 15, base_attack_power = 15, is_alive = True,
      agent_x = px, agent_y = py, role_name = r, role_data = rd\<rparr>"

section \<open>Decision workers\<close>

text \<open>
  \<^verbatim>\<open>calculate_distance\<close> is the Euclidean distance, a float square root. The model keeps
  its square, an integer: the square root is monotone, so \<^verbatim>\<open>min\<close> by distance is
  \<^verbatim>\<open>min\<close> by squared distance, and \<^verbatim>\<open>distance <= 1.5\<close> is \<open>4 * d\<^sup>2 \<le> 9\<close>.
\<close>

definition calculate_distance_sq :: "int \<Rightarrow> int \<Rightarrow> int \<Rightarrow> int \<Rightarrow> int" where
  "calculate_distance_sq x1 y1 x2 y2 = (x1 - x2)\<^sup>2 + (y1 - y2)\<^sup>2"

definition in_reach :: "int \<Rightarrow> bool" where
  "in_reach d2 = (4 * d2 \<le> 9)"

text \<open>Python's \<^verbatim>\<open>min(targets, key=...)\<close>: the first element of least key.\<close>

fun py_min :: "('a \<Rightarrow> int) \<Rightarrow> 'a \<Rightarrow> 'a list \<Rightarrow> 'a" where
  "py_min key best [] = best"
| "py_min key best (t # ts) = py_min key (if key t < key best then t else best) ts"

definition find_nearest :: "int \<Rightarrow> int \<Rightarrow> ('a \<Rightarrow> int \<times> int) \<Rightarrow> 'a list \<Rightarrow> 'a option" where
  "find_nearest px py pos targets =
     (case targets of
        [] \<Rightarrow> None
      | t # ts \<Rightarrow>
          Some (py_min (\<lambda>u. calculate_distance_sq px py (fst (pos u)) (snd (pos u))) t ts))"

definition agent_pos :: "agent \<Rightarrow> int \<times> int" where
  "agent_pos a = (agent_x a, agent_y a)"

definition item_pos :: "item \<Rightarrow> int \<times> int" where
  "item_pos it = (item_x it, item_y it)"

text \<open>The shared, read-only \<^verbatim>\<open>game_state\<close> of a round.\<close>

record game_state =
  humans :: "agent list"
  zombies :: "agent list"
  items :: "item list"

text \<open>
  What a worker hands back: the updated copy of its agent, what it appended to
  \<^verbatim>\<open>combat_buffer\<close> (nothing, or one result, which is \<open>None\<close> for a miss) and what it
  appended to \<^verbatim>\<open>item_pickups\<close>.
\<close>

record worker_out =
  upd :: agent
  combat_out :: "combat option option"
  pickup_out :: "(int \<times> int) option"

text \<open>Lines 116 to 124 of \<^verbatim>\<open>process_human_turn\<close>: the Doctor's self-heal.\<close>

definition doctor_heal :: "agent \<Rightarrow> agent" where
  "doctor_heal h =
     (if role_name h = Some ''Doctor'' then
        let charges = (case heal_charges (role_data h) of None \<Rightarrow> 3 | Some c \<Rightarrow> c) in
        if 0 < charges \<and> of_int (health h) < of_int (max_health h) * (6 / 10 :: rat) then
          h\<lparr>health := min (health h + py_int (of_int (max_health h) * (5 / 10))) (max_health h),
            role_data := (role_data h)\<lparr>heal_charges := Some (charges - 1)\<rparr>\<rparr>
        else h
      else h)"

definition assign_role_to_human :: "agent \<Rightarrow> item \<Rightarrow> agent" where
  "assign_role_to_human h it =
     (if item_type it = ''MedKit'' then
        h\<lparr>role_name := Some ''Doctor'',
          role_data := empty_role_data\<lparr>heal_charges := Some 3, heal_amount := Some (5 / 10)\<rparr>\<rparr>
      else if item_type it = ''Sword'' then
        h\<lparr>role_name := Some ''Hunter'',
          attack_power := py_int (of_int (base_attack_power h) * (15 / 10)),
          role_data := empty_role_data\<lparr>attack_multiplier := Some 2,
                                        critical_chance := Some (3 / 10)\<rparr>\<rparr>
      else h)"

definition direction :: "int \<Rightarrow> int \<Rightarrow> int" where
  "direction target p = (if p < target then 1 else if target < p then - 1 else 0)"

definition move_step :: "int \<Rightarrow> int \<Rightarrow> int \<Rightarrow> agent \<Rightarrow> agent" where
  "move_step grid_size dx dy a =
     a\<lparr>agent_x := max 0 (min (grid_size - 1) (agent_x a + dx)),
       agent_y := max 0 (min (grid_size - 1) (agent_y a + dy))\<rparr>"

text \<open>Python's truth value of \<^verbatim>\<open>role_name\<close>: \<^verbatim>\<open>None\<close> and the empty string are false.\<close>

definition no_role :: "agent \<Rightarrow> bool" where
  "no_role a = (role_name a = None \<or> role_name a = Some [])"

text \<open>The item a role-less human picks up this round, if any (lines 127 to 133).\<close>

definition item_in_reach :: "agent \<Rightarrow> game_state \<Rightarrow> item option" where
  "item_in_reach h gs =
     (if no_role h \<and> items gs \<noteq> [] then
        case find_nearest (agent_x h) (agent_y h) item_pos (items gs) of
          None \<Rightarrow> None
        | Some it \<Rightarrow>
            if in_reach (calculate_distance_sq (agent_x h) (agent_y h) (item_x it) (item_y it))
            then Some it else None
      else None)"

definition process_human_turn ::
    "int \<Rightarrow> agent \<Rightarrow> game_state \<Rightarrow> (nat \<Rightarrow> nat) \<Rightarrow> error + worker_out" where
  "process_human_turn grid_size human gs draws =
     (let h = doctor_heal human in
      case item_in_reach h gs of
        Some it \<Rightarrow>
          Inr \<lparr>upd = assign_role_to_human h it, combat_out = None,
               pickup_out = Some (item_id it, agent_id h)\<rparr>
      | None \<Rightarrow>
          (case find_nearest (agent_x h) (agent_y h) agent_pos (zombies gs) of
             None \<Rightarrow> Inr \<lparr>upd = h, combat_out = None, pickup_out = None\<rparr>
           | Some z \<Rightarrow>
               if in_reach (calculate_distance_sq (agent_x h) (agent_y h) (agent_x z) (agent_y z))
               then
                 (case calculate_attack h z draws of
                    Inl e \<Rightarrow> Inl e
                  | Inr r \<Rightarrow> Inr \<lparr>upd = h, combat_out = Some r, pickup_out = None\<rparr>)
               else
                 Inr \<lparr>upd = move_step grid_size (direction (agent_x z) (agent_x h))
                              (direction (agent_y z) (agent_y h)) h,
                      combat_out = None, pickup_out = None\<rparr>))"

text \<open>The loop \<^verbatim>\<open>for _ in range(int(movement_range))\<close> of \<^verbatim>\<open>process_zombie_turn\<close>.\<close>

fun move_steps :: "nat \<Rightarrow> int \<Rightarrow> int \<Rightarrow> int \<Rightarrow> agent \<Rightarrow> agent" where
  "move_steps 0 grid_size dx dy a = a"
| "move_steps (Suc n) grid_size dx dy a =
     move_steps n grid_size dx dy (move_step grid_size dx dy a)"

definition process_zombie_turn ::
    "int \<Rightarrow> agent \<Rightarrow> game_state \<Rightarrow> (nat \<Rightarrow> nat) \<Rightarrow> error + worker_out" where
  "process_zombie_turn grid_size zombie gs draws =
     (case find_nearest (agent_x zombie) (agent_y zombie) agent_pos (humans gs) of
        None \<Rightarrow> Inr \<lparr>upd = zombie, combat_out = None, pickup_out = None\<rparr>
      | Some h \<Rightarrow>
          if in_reach (calculate_distance_sq (agent_x zombie) (agent_y zombie)
                         (agent_x h) (agent_y h))
          then
            (case calculate_attack zombie h draws of
               Inl e \<Rightarrow> Inl e
             | Inr r \<Rightarrow> Inr \<lparr>upd = zombie, combat_out = Some r, pickup_out = None\<rparr>)
          else
            let range = (case movement_range (role_data zombie) of None \<Rightarrow> 1 | Some m \<Rightarrow> m);
                dx = direction (agent_x h) (agent_x zombie);
                dy = direction (agent_y h) (agent_y zombie)
            in Inr \<lparr>upd =
                      (if 1 \<le> range then move_steps (nat (py_int range)) grid_size dx dy zombie
                       else if random_random (draws 0) < range
                         then move_step grid_size dx dy zombie
                       else zombie),
                    combat_out = None, pickup_out = None\<rparr>)"

section \<open>The tables of the persistence layer\<close>

text \<open>
  The state of one game session: the rows of \<^verbatim>\<open>agents\<close>, \<^verbatim>\<open>items\<close> and \<^verbatim>\<open>combat_log\<close>
  that carry its \<^verbatim>\<open>game_id\<close>, its round counter and the grid size of the game object.
  The statements of \<^verbatim>\<open>DatabaseManager\<close> are assumed to succeed.
\<close>

record game =
  grid_size :: int
  round_num :: int
  agents_tbl :: "agent list"
  items_tbl :: "item list"
  combat_log :: "log_row list"

definition get_alive_agents :: "game \<Rightarrow> string \<Rightarrow> agent list" where
  "get_alive_agents g t = filter (\<lambda>a. is_alive a \<and> agent_type a = t) (agents_tbl g)"

definition get_available_items :: "game \<Rightarrow> item list" where
  "get_available_items g = filter (\<lambda>i. \<not> picked_up i) (items_tbl g)"

text \<open>\<^verbatim>\<open>UPDATE items SET picked_up = TRUE, picked_by_agent_id = %s WHERE item_id = %s\<close>\<close>

definition pick_up_item :: "int \<times> int \<Rightarrow> item list \<Rightarrow> item list" where
  "pick_up_item p tbl =
     map (\<lambda>i. if item_id i = fst p
               then i\<lparr>picked_up := True, picked_by_agent_id := Some (snd p)\<rparr> else i) tbl"

text \<open>
  \<^verbatim>\<open>batch_update_agents\<close> runs one \<^verbatim>\<open>UPDATE\<close> per value of the dictionary
  \<^verbatim>\<open>updated_agents\<close>, keyed by the agent's id; it writes the six columns below and no
  other. The dictionary is a map, and a row is rewritten from the entry under its id.
\<close>

definition update_row :: "agent \<Rightarrow> agent \<Rightarrow> agent" where
  "update_row a row =
     row\<lparr>health := health a, is_alive := is_alive a, agent_x := agent_x a,
         agent_y := agent_y a, role_name := role_name a, role_data := role_data a\<rparr>"

definition batch_update_agents :: "(int \<rightharpoonup> agent) \<Rightarrow> agent list \<Rightarrow> agent list" where
  "batch_update_agents updated tbl =
     map (\<lambda>row. case updated (agent_id row) of None \<Rightarrow> row | Some a \<Rightarrow> update_row a row) tbl"

section \<open>The merge\<close>

text \<open>Lines 237 to 240 of \<^verbatim>\<open>apply_combat_results\<close>, which are \<^verbatim>\<open>Agent.take_damage\<close>.\<close>

definition take_damage :: "int \<Rightarrow> agent \<Rightarrow> agent" where
  "take_damage d t =
     (let h = health t - d in
      if h \<le> 0 then t\<lparr>health := 0, is_alive := False\<rparr> else t\<lparr>health := h\<rparr>)"

text \<open>One turn of the loop of \<^verbatim>\<open>apply_combat_results\<close> on the dictionary and the log.\<close>

definition apply_combat ::
    "int \<Rightarrow> combat option \<Rightarrow> (int \<rightharpoonup> agent) \<times> log_row list \<Rightarrow> (int \<rightharpoonup> agent) \<times> log_row list" where
  "apply_combat rn entry s =
     (case entry of
        None \<Rightarrow> s
      | Some c \<Rightarrow>
          ((case fst s (target_id c) of
              None \<Rightarrow> fst s
            | Some t \<Rightarrow> (fst s)(target_id c \<mapsto> take_damage (damage c) t)),
           snd s @ [(rn, c)]))"

definition apply_combat_results ::
    "int \<Rightarrow> combat option list \<Rightarrow> (int \<rightharpoonup> agent) \<times> log_row list \<Rightarrow> (int \<rightharpoonup> agent) \<times> log_row list" where
  "apply_combat_results rn buffer s = fold (apply_combat rn) buffer s"

section \<open>One round\<close>

text \<open>
  A finished task: the agent it was submitted for and what \<^verbatim>\<open>future.result()\<close> gives, an
  exception or the worker's output. The workers run concurrently; the model takes the
  order in which they finish, and in which they reach the locked appends, as a
  permutation \<open>sched\<close> of the submitted tasks, and the draws each worker receives as
  \<open>draws\<close>, by agent id.
\<close>

type_synonym task = "agent \<times> (error + worker_out)"

definition submit_all :: "game \<Rightarrow> (int \<Rightarrow> nat \<Rightarrow> nat) \<Rightarrow> task list" where
  "submit_all g draws =
     (let hs = get_alive_agents g ''Human'';
          zs = get_alive_agents g ''Zombie'';
          gs = \<lparr>humans = hs, zombies = zs, items = get_available_items g\<rparr>
      in map (\<lambda>h. (h, process_human_turn (grid_size g) h gs (draws (agent_id h)))) hs @
         map (\<lambda>z. (z, process_zombie_turn (grid_size g) z gs (draws (agent_id z)))) zs)"

definition combat_buffer :: "task list \<Rightarrow> combat option list" where
  "combat_buffer done =
     concat (map (\<lambda>t. case snd t of
                         Inl e \<Rightarrow> []
                       | Inr out \<Rightarrow> (case combat_out out of None \<Rightarrow> [] | Some r \<Rightarrow> [r])) done)"

definition item_pickups :: "task list \<Rightarrow> (int \<times> int) list" where
  "item_pickups done =
     concat (map (\<lambda>t. case snd t of
                         Inl e \<Rightarrow> []
                       | Inr out \<Rightarrow> (case pickup_out out of None \<Rightarrow> [] | Some p \<Rightarrow> [p])) done)"

text \<open>
  The two collecting loops: a task that raised is reported and leaves no entry; the
  human tasks are collected before the zombie tasks.
\<close>

definition collect :: "task list \<Rightarrow> (int \<rightharpoonup> agent)" where
  "collect done =
     fold (\<lambda>t m. case snd t of Inl e \<Rightarrow> m | Inr out \<Rightarrow> m(agent_id (fst t) \<mapsto> upd out))
       (filter (\<lambda>t. agent_type (fst t) = ''Human'') done @
        filter (\<lambda>t. agent_type (fst t) \<noteq> ''Human'') done)
       Map.empty"

definition run_round :: "(task list \<Rightarrow> task list) \<Rightarrow> (int \<Rightarrow> nat \<Rightarrow> nat) \<Rightarrow> game \<Rightarrow> game" where
  "run_round sched draws g =
     (let rn = round_num g + 1;
          done = sched (submit_all g draws);
          merged = apply_combat_results rn (combat_buffer done) (collect done, combat_log g)
      in g\<lparr>round_num := rn,
           agents_tbl := batch_update_agents (fst merged) (agents_tbl g),
           items_tbl := fold pick_up_item (item_pickups done) (items_tbl g),
           combat_log := snd merged\<rparr>)"

section \<open>The game loop\<close>

definition is_game_over :: "game \<Rightarrow> bool" where
  "is_game_over g = (get_alive_agents g ''Human'' = [] \<or> get_alive_agents g ''Zombie'' = [])"

text \<open>
  The loop of \<^verbatim>\<open>run_game\<close>, \<^verbatim>\<open>while not self.is_game_over() and self.round_num < max_rounds\<close>,
  with the schedule and the draws of each round given by its number. It terminates
  because every round advances the counter.
\<close>

function run_game_loop ::
    "(int \<Rightarrow> task list \<Rightarrow> task list) \<Rightarrow> (int \<Rightarrow> int \<Rightarrow> nat \<Rightarrow> nat) \<Rightarrow> int \<Rightarrow> game \<Rightarrow> game" where
  "run_game_loop scheds draws max_rounds g =
     (if \<not> is_game_over g \<and> round_num g < max_rounds
      then run_game_loop scheds draws max_rounds
             (run_round (scheds (round_num g + 1)) (draws (round_num g + 1)) g)
      else g)"
  by pat_completeness auto
termination
  by (relation "measure (\<lambda>(s, d, m, g). nat (m - round_num g))")
     (auto simp: run_round_def Let_def)

declare run_game_loop.simps [simp del]

section \<open>Invariants and auxiliary notions\<close>

text \<open>A position inside the grid of size \<open>n\<close>.\<close>

definition in_grid :: "int \<Rightarrow> agent \<Rightarrow> bool" where
  "in_grid n a = (0 \<le> agent_x a \<and> agent_x a < n \<and> 0 \<le> agent_y a \<and> agent_y a < n)"

text \<open>The health invariant of the data model.\<close>

definition health_inv :: "agent \<Rightarrow> bool" where
  "health_inv a = (0 \<le> health a \<and> health a \<le> max_health a \<and> (is_alive a = (0 < health a)))"

text \<open>
  The attack multiplier of \<^verbatim>\<open>role_data\<close> is absent or not negative, as it is for every
  role the game assigns (\<open>0.6\<close>, \<open>2.0\<close>, \<open>2.5\<close>).
\<close>

definition nonneg_multiplier :: "agent \<Rightarrow> bool" where
  "nonneg_multiplier a = (case attack_multiplier (role_data a) of None \<Rightarrow> True | Some m \<Rightarrow> 0 \<le> m)"

text \<open>What every successful worker guarantees about its output.\<close>

definition worker_sound :: "int \<Rightarrow> agent \<Rightarrow> worker_out \<Rightarrow> bool" where
  "worker_sound n a out =
     (agent_id (upd out) = agent_id a \<and> max_health (upd out) = max_health a \<and>
      (health_inv a \<longrightarrow> health_inv (upd out)) \<and>
      (in_grid n a \<longrightarrow> in_grid n (upd out)) \<and>
      (nonneg_multiplier a \<longrightarrow> nonneg_multiplier (upd out)) \<and>
      (\<forall>c. combat_out out = Some (Some c) \<longrightarrow>
           attacker_id c = agent_id a \<and> (nonneg_multiplier a \<longrightarrow> 0 \<le> damage c)) \<and>
      (\<forall>p. pickup_out out = Some p \<longrightarrow> snd p = agent_id a))"

text \<open>The results of a buffer that are not misses, in order: they are what is logged.\<close>

fun hits :: "combat option list \<Rightarrow> combat list" where
  "hits [] = []"
| "hits (None # es) = hits es"
| "hits (Some c # es) = c # hits es"

text \<open>\<^verbatim>\<open>role_data.get('heal_charges', 3)\<close>: the charges a Doctor has left.\<close>

definition charges_left :: "agent \<Rightarrow> int" where
  "charges_left h = (case heal_charges (role_data h) of None \<Rightarrow> 3 | Some c \<Rightarrow> c)"

text \<open>
  \<^verbatim>\<open>Doctor.use_special_ability\<close> of \<^verbatim>\<open>zombie_game4.py\<close>, on the role's \<^verbatim>\<open>heal_charges\<close> and
  its agent; \<^verbatim>\<open>heal_amount\<close> is the constant \<open>0.5\<close>. It returns its flag, the charges
  and the agent.
\<close>

definition use_special_ability :: "int \<Rightarrow> agent \<Rightarrow> bool \<times> int \<times> agent" where
  "use_special_ability charges a =
     (if 0 < charges \<and> of_int (health a) < of_int (max_health a) * (6 / 10 :: rat) then
        (True, charges - 1,
         a\<lparr>health := min (health a + py_int (of_int (max_health a) * (5 / 10))) (max_health a)\<rparr>)
      else (False, charges, a))"

text \<open>
  The effect of the round's \<^verbatim>\<open>pick_up_item\<close> calls on one row of \<^verbatim>\<open>items\<close>: the last
  pickup recorded for the item wins.
\<close>

definition pickup_effect :: "(int \<times> int) list \<Rightarrow> item \<Rightarrow> item" where
  "pickup_effect ps i =
     (case map_of (rev ps) (item_id i) of
        None \<Rightarrow> i
      | Some a \<Rightarrow> i\<lparr>picked_up := True, picked_by_agent_id := Some a\<rparr>)"

text \<open>The columns neither the self-heal nor a pickup writes.\<close>

definition same_identity :: "agent \<Rightarrow> agent \<Rightarrow> bool" where
  "same_identity a b =
     (agent_id b = agent_id a \<and> agent_name b = agent_name a \<and> agent_type b = agent_type a \<and>
      max_health b = max_health a \<and> base_attack_power b = base_attack_power a \<and>
      is_alive b = is_alive a \<and> agent_x b = agent_x a \<and> agent_y b = agent_y a)"

text \<open>The dictionary \<^verbatim>\<open>updated_agents\<close> after \<^verbatim>\<open>apply_combat_results\<close>.\<close>

definition merged_agents :: "(task list \<Rightarrow> task list) \<Rightarrow> (int \<Rightarrow> nat \<Rightarrow> nat) \<Rightarrow> game \<Rightarrow> (int \<rightharpoonup> agent)" where
  "merged_agents sched d g =
     fst (apply_combat_results (round_num g + 1) (combat_buffer (sched (submit_all g d)))
            (collect (sched (submit_all g d)), combat_log g))"

text \<open>What the merged dictionary holds under a key.\<close>

definition merged_from :: "game \<Rightarrow> task \<Rightarrow> worker_out \<Rightarrow> agent \<Rightarrow> bool" where
  "merged_from g t out u =
     (snd t = Inr out \<and> agent_id u = agent_id (fst t) \<and> max_health u = max_health (fst t) \<and>
      agent_x u = agent_x (upd out) \<and> agent_y u = agent_y (upd out) \<and>
      role_name u = role_name (upd out) \<and> role_data u = role_data (upd out) \<and>
      ((\<forall>a\<in>set (agents_tbl g). health_inv a \<and> nonneg_multiplier a) \<longrightarrow> health_inv u))"

text \<open>The effect of one buffered result on the dictionary alone, the log left aside.\<close>

definition apply_damage :: "combat option \<Rightarrow> (int \<rightharpoonup> agent) \<Rightarrow> (int \<rightharpoonup> agent)" where
  "apply_damage entry ad =
     (case entry of
        None \<Rightarrow> ad
      | Some c \<Rightarrow>
          (case ad (target_id c) of
             None \<Rightarrow> ad
           | Some t \<Rightarrow> ad(target_id c \<mapsto> take_damage (damage c) t)))"

text \<open>A buffered result is a miss or carries a non-negative damage.\<close>

definition nonneg_entry :: "combat option \<Rightarrow> bool" where
  "nonneg_entry entry = (case entry of None \<Rightarrow> True | Some c \<Rightarrow> 0 \<le> damage c)"

text \<open>
  The damages of the results of a buffer that are aimed at agent \<open>k\<close>, in buffer order,
  and an agent after taking a list of damages at once: health is clamped at 0, and the
  agent is alive only if it was and health is left.
\<close>

definition damages_on :: "int \<Rightarrow> combat option list \<Rightarrow> int list" where
  "damages_on k buf = map damage (filter (\<lambda>c. target_id c = k) (hits buf))"

definition wounded :: "int list \<Rightarrow> agent \<Rightarrow> agent" where
  "wounded ds t =
     (if ds = [] then t
      else t\<lparr>health := max 0 (health t - sum_list ds),
             is_alive := is_alive t \<and> 0 < health t - sum_list ds\<rparr>)"

text \<open>
  What a finished task contributes to the round: the hit it returned, if it returned
  one, and the pickup it returned; a task that raised contributes neither.
\<close>

definition returned_hit :: "task \<Rightarrow> combat option" where
  "returned_hit t =
     (case snd t of
        Inl e \<Rightarrow> None
      | Inr out \<Rightarrow> (case combat_out out of None \<Rightarrow> None | Some r \<Rightarrow> r))"

definition returned_pickup :: "task \<Rightarrow> (int \<times> int) option" where
  "returned_pickup t = (case snd t of Inl e \<Rightarrow> None | Inr out \<Rightarrow> pickup_out out)"

section \<open>The shared generator\<close>

text \<open>
  The workers call the functions of the module \<^verbatim>\<open>random\<close>, that is one generator shared
  by all threads. A seed fixes the stream of raw draws the generator serves, one per
  call; which worker receives which draw depends on the order in which the calls
  arrive. For the list \<open>calls\<close> of the ids of the calling workers, in the order their
  calls are served, \<open>call_index i k calls\<close> is the position in the stream of call number
  \<open>k\<close> of worker \<open>i\<close>, and \<open>shared_draws stream calls\<close> are the draws the workers
  receive.
\<close>

fun call_index :: "int \<Rightarrow> nat \<Rightarrow> int list \<Rightarrow> nat" where
  "call_index i k [] = 0"
| "call_index i k (j # js) =
     (if j = i \<and> k = 0 then 0 else Suc (call_index i (if j = i then k - 1 else k) js))"

definition shared_draws :: "(nat \<Rightarrow> nat) \<Rightarrow> int list \<Rightarrow> int \<Rightarrow> nat \<Rightarrow> nat" where
  "shared_draws stream calls i k = stream (call_index i k calls)"

section \<open>Concrete games\<close>

text \<open>A non-critical combat result.\<close>

definition hit :: "int \<Rightarrow> int \<Rightarrow> int \<Rightarrow> combat" where
  "hit a t dmg = \<lparr>attacker_id = a, target_id = t, damage = dmg, was_critical = False\<rparr>"

text \<open>Two humans on either side of a zombie of health \<open>hp\<close>, no items.\<close>

definition two_on_one :: "int \<Rightarrow> game" where
  "two_on_one hp =
     \<lparr>grid_size = 20, round_num = 0,
      agents_tbl = [spawn_human 1 ''Human_1'' 0 0, spawn_human 2 ''Human_2'' 0 2,
                    (spawn_zombie 3 ''Zombie_1'' 0 1 None empty_role_data)\<lparr>health := hp\<rparr>],
      items_tbl = [], combat_log = []\<rparr>"

text \<open>Two role-less humans within reach of one MedKit, a zombie far away.\<close>

definition medkit_race :: game where
  "medkit_race =
     \<lparr>grid_size = 20, round_num = 0,
      agents_tbl = [spawn_human 1 ''Human_1'' 0 0, spawn_human 2 ''Human_2'' 1 0,
                    spawn_zombie 3 ''Zombie_1'' 10 10 None empty_role_data],
      items_tbl = [\<lparr>item_id = 1, item_type = ''MedKit'', item_x = 0, item_y = 1,
                    picked_up = False, picked_by_agent_id = None\<rparr>],
      combat_log = []\<rparr>"

text \<open>A role-less human next to a Sword and next to a zombie, and the game one round later.\<close>

definition sword_duel :: game where
  "sword_duel =
     \<lparr>grid_size = 20, round_num = 0,
      agents_tbl = [spawn_human 1 ''Human_1'' 0 0,
                    spawn_zombie 2 ''Zombie_1'' 0 1 None empty_role_data],
      items_tbl = [\<lparr>item_id = 1, item_type = ''Sword'', item_x = 1, item_y = 1,
                    picked_up = False, picked_by_agent_id = None\<rparr>],
      combat_log = []\<rparr>"

definition sword_duel_1 :: game where
  "sword_duel_1 =
     \<lparr>grid_size = 20, round_num = 1,
      agents_tbl = [(spawn_human 1 ''Human_1'' 0 0)
                      \<lparr>role_name := Some ''Hunter'',
                       role_data := empty_role_data\<lparr>attack_multiplier := Some 2,
                                                     critical_chance := Some (3 / 10)\<rparr>\<rparr>,
                    spawn_zombie 2 ''Zombie_1'' 0 1 None empty_role_data],
      items_tbl = [\<lparr>item_id = 1, item_type = ''Sword'', item_x = 1, item_y = 1,
                    picked_up = True, picked_by_agent_id = Some 1\<rparr>],
      combat_log = []\<rparr>"

text \<open>
  Draws under which \<^verbatim>\<open>randint(10, 20)\<close> returns 20, a zombie misses and a Hunter's
  critical roll fails.
\<close>

definition high_draws :: "int \<Rightarrow> nat \<Rightarrow> nat" where
  "high_draws i k = (if k = 0 then 10 else 9007199254740991)"

text \<open>A Speed Zombie five steps away from a human.\<close>

definition speed_chase :: game where
  "speed_chase =
     \<lparr>grid_size = 20, round_num = 0,
      agents_tbl = [spawn_human 1 ''Human_1'' 0 0,
                    spawn_zombie 2 ''Zombie_1'' 5 5 (Some ''Speed Zombie'')
                      (empty_role_data\<lparr>movement_range := Some 2,
                                        attack_multiplier := Some (6 / 10)\<rparr>)],
      items_tbl = [], combat_log = []\<rparr>"

text \<open>
  A human whose \<^verbatim>\<open>attack_power\<close> is negative, so that its attack raises, a second human
  and a zombie between them, and a third human next to a MedKit.
\<close>

definition faulty_worker :: game where
  "faulty_worker =
     \<lparr>grid_size = 20, round_num = 0,
      agents_tbl = [(spawn_human 1 ''Human_1'' 0 0)\<lparr>attack_power := - 1\<rparr>,
                    spawn_human 2 ''Human_2'' 0 2,
                    spawn_human 3 ''Human_3'' 10 10,
                    spawn_zombie 4 ''Zombie_1'' 0 1 None empty_role_data],
      items_tbl = [\<lparr>item_id = 1, item_type = ''MedKit'', item_x = 10, item_y = 11,
                    picked_up = False, picked_by_agent_id = None\<rparr>],
      combat_log = []\<rparr>"

text \<open>The dictionary of two humans and a zombie of health 15.\<close>

definition melee :: "int \<rightharpoonup> agent" where
  "melee = [1 \<mapsto> spawn_human 1 ''Human_1'' 0 0, 2 \<mapsto> spawn_human 2 ''Human_2'' 0 2,
            3 \<mapsto> (spawn_zombie 3 ''Zombie_1'' 0 1 None empty_role_data)\<lparr>health := 15\<rparr>]"

section \<open>Auxiliary facts\<close>

lemma py_int_nonneg: "0 \<le> r \<Longrightarrow> 0 \<le> py_int r"
  by (simp add: py_int_def)

lemma py_int_half: "0 \<le> n \<Longrightarrow> py_int (of_int n * (5 / 10)) = n div 2"
proof -
  assume n: "0 \<le> n"
  have "of_int n * (5 / 10 :: rat) = of_int n / of_int 2" by simp
  then have "\<lfloor>of_int n * (5 / 10 :: rat)\<rfloor> = n div 2"
    by (simp only: floor_divide_of_int_eq)
  moreover have "\<not> of_int n * (5 / 10 :: rat) < 0" using n by simp
  ultimately show ?thesis by (simp add: py_int_def)
qed

lemma doctor_heal_frame:
  "agent_id (doctor_heal h) = agent_id h"
  "agent_name (doctor_heal h) = agent_name h"
  "agent_type (doctor_heal h) = agent_type h"
  "max_health (doctor_heal h) = max_health h"
  "attack_power (doctor_heal h) = attack_power h"
  "base_attack_power (doctor_heal h) = base_attack_power h"
  "is_alive (doctor_heal h) = is_alive h"
  "agent_x (doctor_heal h) = agent_x h"
  "agent_y (doctor_heal h) = agent_y h"
  "role_name (doctor_heal h) = role_name h"
  "attack_multiplier (role_data (doctor_heal h)) = attack_multiplier (role_data h)"
  by (simp_all add: doctor_heal_def Let_def)

lemma doctor_heal_health_inv:
  assumes "health_inv h" and "is_alive h"
  shows "health_inv (doctor_heal h)"
proof (cases "doctor_heal h = h")
  case True
  then show ?thesis using assms by simp
next
  case False
  then have fired: "of_int (health h) < of_int (max_health h) * (6 / 10 :: rat)"
    and upd: "health (doctor_heal h) =
          min (health h + py_int (of_int (max_health h) * (5 / 10))) (max_health h)"
    by (auto simp: doctor_heal_def Let_def split: if_splits)
  from assms have h: "0 < health h" "health h \<le> max_health h" "is_alive h"
    by (simp_all add: health_inv_def)
  then have m: "0 \<le> max_health h" by simp
  have heal: "py_int (of_int (max_health h) * (5 / 10)) = max_health h div 2"
    using m by (rule py_int_half)
  have pos: "0 < max_health h" using h by simp
  show ?thesis
    using h pos upd heal by (auto simp: health_inv_def doctor_heal_frame)
qed

lemma randint_bounds: "randint k a b = Inr r \<Longrightarrow> a \<le> r \<and> r \<le> b"
proof -
  assume r: "randint k a b = Inr r"
  then have ab: "a \<le> b" and eq: "r = a + int (k mod nat (b - a + 1))"
    by (auto simp: randint_def split: if_splits)
  have "k mod nat (b - a + 1) < nat (b - a + 1)" using ab by (intro mod_less_divisor) simp
  then have "int (k mod nat (b - a + 1)) < b - a + 1" using ab by linarith
  with eq show ?thesis by simp
qed

lemma py_int_half_le: "randint k (py_int (of_int p * (5 / 10))) p = Inr r \<Longrightarrow> 0 \<le> r"
proof -
  assume r: "randint k (py_int (of_int p * (5 / 10))) p = Inr r"
  then have b: "py_int (of_int p * (5 / 10)) \<le> r" "r \<le> p" by (auto dest: randint_bounds)
  show ?thesis
  proof (cases "0 \<le> p")
    case True
    then have "0 \<le> p div 2" by simp
    with b py_int_half [OF True] show ?thesis by linarith
  next
    case False
    then have neg: "of_int p * (5 / 10 :: rat) < 0" by simp
    have "- (of_int p * (5 / 10 :: rat)) = of_int (- p) / of_int 2" by simp
    then have "\<lfloor>- (of_int p * (5 / 10 :: rat))\<rfloor> = (- p) div 2"
      by (simp only: floor_divide_of_int_eq)
    then have "py_int (of_int p * (5 / 10)) = - ((- p) div 2)" using neg by (simp add: py_int_def)
    with b False show ?thesis by linarith
  qed
qed

lemma calculate_attack_Some:
  assumes "calculate_attack a t d = Inr (Some c)"
  shows "attacker_id c = agent_id a" and "target_id c = agent_id t"
    and "nonneg_multiplier a \<Longrightarrow> 0 \<le> damage c"
proof -
  let ?i = "if agent_type a = ''Zombie'' then 1 else 0 :: nat"
  from assms obtain base where
    base: "randint (d ?i) (py_int (of_int (attack_power a) * (5 / 10))) (attack_power a) = Inr base"
    by (auto simp: calculate_attack_def Let_def split: if_splits sum.splits)
  define m0 where "m0 = (case attack_multiplier (role_data a) of None \<Rightarrow> 1 | Some m \<Rightarrow> m)"
  define crit where "crit = (role_name a = Some ''Hunter'' \<and> random_random (d (Suc ?i)) < 3 / 10)"
  from assms base have c: "c = \<lparr>attacker_id = agent_id a, target_id = agent_id t,
      damage = py_int (of_int base * (if crit then m0 * (15 / 10) else m0)), was_critical = crit\<rparr>"
    by (auto simp: calculate_attack_def Let_def m0_def crit_def split: if_splits)
  show "attacker_id c = agent_id a" "target_id c = agent_id t" by (simp_all add: c)
  assume "nonneg_multiplier a"
  then have "0 \<le> m0" by (simp add: nonneg_multiplier_def m0_def split: option.splits)
  moreover have "0 \<le> base" using base by (rule py_int_half_le)
  ultimately have "0 \<le> of_int base * (if crit then m0 * (15 / 10) else m0)" by simp
  then show "0 \<le> damage c" unfolding c by (simp add: py_int_nonneg)
qed

lemma process_human_turn_Inr:
  assumes "process_human_turn n h gs d = Inr out"
  obtains (pickup) it where "item_in_reach (doctor_heal h) gs = Some it"
      "upd out = assign_role_to_human (doctor_heal h) it" "combat_out out = None"
      "pickup_out out = Some (item_id it, agent_id h)"
  | (idle) "upd out = doctor_heal h" "combat_out out = None" "pickup_out out = None"
  | (attack) z r where "calculate_attack (doctor_heal h) z d = Inr r"
      "upd out = doctor_heal h" "combat_out out = Some r" "pickup_out out = None"
  | (move) dx dy where "upd out = move_step n dx dy (doctor_heal h)"
      "combat_out out = None" "pickup_out out = None"
  using assms unfolding process_human_turn_def Let_def
  by (auto simp: doctor_heal_frame split: option.splits if_splits sum.splits)

lemma process_zombie_turn_Inr:
  assumes "process_zombie_turn n z gs d = Inr out"
  obtains (attack) h r where "calculate_attack z h d = Inr r"
      "upd out = z" "combat_out out = Some r" "pickup_out out = None"
  | (move) k dx dy where "upd out = move_steps k n dx dy z"
      "combat_out out = None" "pickup_out out = None"
proof -
  have m0: "z = move_steps 0 n 0 0 z" by simp
  have m1: "\<And>dx dy. move_step n dx dy z = move_steps (Suc 0) n dx dy z" by simp
  show ?thesis
    using assms that(1) that(2)[of 0 0 0] that(2)[of "Suc 0"] that(2)
    unfolding process_zombie_turn_def Let_def
    by (auto split: option.splits if_splits sum.splits)
qed

lemma assign_role_frame:
  "agent_id (assign_role_to_human h it) = agent_id h"
  "health (assign_role_to_human h it) = health h"
  "max_health (assign_role_to_human h it) = max_health h"
  "is_alive (assign_role_to_human h it) = is_alive h"
  "agent_x (assign_role_to_human h it) = agent_x h"
  "agent_y (assign_role_to_human h it) = agent_y h"
  by (simp_all add: assign_role_to_human_def)

lemma assign_role_nonneg:
  "nonneg_multiplier h \<Longrightarrow> nonneg_multiplier (assign_role_to_human h it)"
  by (simp add: assign_role_to_human_def nonneg_multiplier_def empty_role_data_def)

lemma move_step_frame:
  "agent_id (move_step n dx dy a) = agent_id a"
  "health (move_step n dx dy a) = health a"
  "max_health (move_step n dx dy a) = max_health a"
  "is_alive (move_step n dx dy a) = is_alive a"
  "role_data (move_step n dx dy a) = role_data a"
  by (simp_all add: move_step_def)

lemma move_step_in_grid: "0 < n \<Longrightarrow> in_grid n (move_step n dx dy a)"
  by (auto simp: move_step_def in_grid_def min_def max_def)

lemma move_steps_frame:
  "agent_id (move_steps k n dx dy a) = agent_id a"
  "health (move_steps k n dx dy a) = health a"
  "max_health (move_steps k n dx dy a) = max_health a"
  "is_alive (move_steps k n dx dy a) = is_alive a"
  "role_data (move_steps k n dx dy a) = role_data a"
  by (induction k arbitrary: a; simp add: move_step_frame)+

lemma move_steps_in_grid: "in_grid n a \<Longrightarrow> in_grid n (move_steps k n dx dy a)"
proof (induction k arbitrary: a)
  case 0
  then show ?case by simp
next
  case (Suc k)
  from Suc.prems have "0 < n" by (simp add: in_grid_def)
  then have "in_grid n (move_step n dx dy a)" by (rule move_step_in_grid)
  then show ?case using Suc.IH by simp
qed

lemma in_grid_cong:
  "agent_x b = agent_x a \<Longrightarrow> agent_y b = agent_y a \<Longrightarrow> in_grid n b = in_grid n a"
  by (simp add: in_grid_def)

lemma health_inv_cong:
  "health b = health a \<Longrightarrow> max_health b = max_health a \<Longrightarrow> is_alive b = is_alive a \<Longrightarrow>
   health_inv b = health_inv a"
  by (simp add: health_inv_def)

lemma nonneg_multiplier_cong:
  "attack_multiplier (role_data b) = attack_multiplier (role_data a) \<Longrightarrow>
   nonneg_multiplier b = nonneg_multiplier a"
  by (simp add: nonneg_multiplier_def)

lemma human_worker_sound:
  assumes "process_human_turn n h gs d = Inr out" and "is_alive h"
  shows "worker_sound n h out"
proof -
  let ?h = "doctor_heal h"
  have hi: "health_inv h \<Longrightarrow> health_inv ?h" using assms(2) by (simp add: doctor_heal_health_inv)
  have gi: "in_grid n ?h = in_grid n h" by (rule in_grid_cong) (simp_all add: doctor_heal_frame)
  have ni: "nonneg_multiplier ?h = nonneg_multiplier h"
    by (rule nonneg_multiplier_cong) (simp add: doctor_heal_frame)
  from assms(1) show ?thesis
  proof (cases rule: process_human_turn_Inr)
    case (pickup it)
    have "health_inv (upd out) = health_inv ?h"
      unfolding pickup by (rule health_inv_cong) (simp_all add: assign_role_frame)
    moreover have "in_grid n (upd out) = in_grid n ?h"
      unfolding pickup by (rule in_grid_cong) (simp_all add: assign_role_frame)
    ultimately show ?thesis
      using hi gi ni pickup
      by (simp add: worker_sound_def assign_role_frame doctor_heal_frame assign_role_nonneg)
  next
    case idle
    then show ?thesis using hi gi ni by (simp add: worker_sound_def doctor_heal_frame)
  next
    case (attack z r)
    then show ?thesis using hi gi ni calculate_attack_Some [of ?h z d]
      by (auto simp: worker_sound_def doctor_heal_frame)
  next
    case (move dx dy)
    have "health_inv (upd out) = health_inv ?h"
      unfolding move by (rule health_inv_cong) (simp_all add: move_step_frame)
    moreover have "nonneg_multiplier (upd out) = nonneg_multiplier ?h"
      unfolding move by (rule nonneg_multiplier_cong) (simp add: move_step_frame)
    moreover have "in_grid n h \<Longrightarrow> in_grid n (upd out)"
      unfolding move by (rule move_step_in_grid) (simp add: in_grid_def)
    ultimately show ?thesis
      using hi ni move by (simp add: worker_sound_def move_step_frame doctor_heal_frame)
  qed
qed

lemma zombie_worker_sound:
  assumes "process_zombie_turn n z gs d = Inr out"
  shows "worker_sound n z out"
  using assms
proof (cases rule: process_zombie_turn_Inr)
  case (attack h r)
  then show ?thesis using calculate_attack_Some [of z h d]
    by (auto simp: worker_sound_def)
next
  case (move k dx dy)
  have "health_inv (upd out) = health_inv z"
    unfolding move by (rule health_inv_cong) (simp_all add: move_steps_frame)
  moreover have "nonneg_multiplier (upd out) = nonneg_multiplier z"
    unfolding move by (rule nonneg_multiplier_cong) (simp add: move_steps_frame)
  moreover have "in_grid n z \<Longrightarrow> in_grid n (upd out)"
    unfolding move by (rule move_steps_in_grid)
  ultimately show ?thesis
    using move by (simp add: worker_sound_def move_steps_frame)
qed

lemma take_damage_frame:
  "agent_id (take_damage d t) = agent_id t"
  "max_health (take_damage d t) = max_health t"
  "agent_x (take_damage d t) = agent_x t"
  "agent_y (take_damage d t) = agent_y t"
  "role_name (take_damage d t) = role_name t"
  "role_data (take_damage d t) = role_data t"
  by (simp_all add: take_damage_def Let_def)

lemma take_damage_health_inv: "health_inv t \<Longrightarrow> 0 \<le> d \<Longrightarrow> health_inv (take_damage d t)"
  by (auto simp: take_damage_def health_inv_def Let_def)

lemma apply_combat_None [simp]: "apply_combat rn None s = s"
  by (simp add: apply_combat_def)

lemma apply_combat_Some:
  "apply_combat rn (Some c) (ad, lg) =
     ((case ad (target_id c) of None \<Rightarrow> ad
       | Some t \<Rightarrow> ad(target_id c \<mapsto> take_damage (damage c) t)), lg @ [(rn, c)])"
  by (simp add: apply_combat_def split: option.splits)

lemma apply_combat_results_Nil [simp]: "apply_combat_results rn [] s = s"
  by (simp add: apply_combat_results_def)

lemma apply_combat_results_Cons [simp]:
  "apply_combat_results rn (e # es) s = apply_combat_results rn es (apply_combat rn e s)"
  by (simp add: apply_combat_results_def)

lemma apply_combat_results_log:
  "snd (apply_combat_results rn buf (ad, lg)) = lg @ map (Pair rn) (hits buf)"
proof (induction buf arbitrary: ad lg)
  case Nil
  then show ?case by simp
next
  case (Cons e es)
  then show ?case by (cases e) (simp_all add: apply_combat_Some)
qed

lemma apply_combat_results_dom:
  "(fst (apply_combat_results rn buf (ad, lg)) k = None) = (ad k = None)"
proof (induction buf arbitrary: ad lg)
  case Nil
  then show ?case by simp
next
  case (Cons e es)
  then show ?case by (cases e) (auto simp: apply_combat_Some split: option.splits)
qed

lemma apply_combat_results_preserves:
  assumes "fst (apply_combat_results rn buf (ad, lg)) k = Some u"
    and "\<And>k u. ad k = Some u \<Longrightarrow> P k u"
    and "\<And>k u c. P k u \<Longrightarrow> c \<in> set (hits buf) \<Longrightarrow> P k (take_damage (damage c) u)"
  shows "P k u"
  using assms
proof (induction buf arbitrary: ad lg)
  case Nil
  then show ?case by simp
next
  case (Cons e es)
  show ?case
  proof (cases e)
    case None
    with Cons show ?thesis by simp
  next
    case (Some c)
    let ?ad = "case ad (target_id c) of None \<Rightarrow> ad
       | Some t \<Rightarrow> ad(target_id c \<mapsto> take_damage (damage c) t)"
    have res: "fst (apply_combat_results rn es (?ad, lg @ [(rn, c)])) k = Some u"
      using Cons.prems(1) Some by (simp add: apply_combat_Some)
    have step: "\<And>k u. ?ad k = Some u \<Longrightarrow> P k u"
      using Cons.prems(2) Cons.prems(3) Some
      by (auto split: option.splits if_splits)
    show ?thesis
      by (rule Cons.IH [OF res step]) (use Cons.prems(3) Some in auto)
  qed
qed

lemma hits_single: "(c \<in> set (hits [e])) = (e = Some c)"
  by (cases e) auto

lemma combat_buffer_hit:
  "c \<in> set (hits (combat_buffer ts)) \<Longrightarrow>
   \<exists>t\<in>set ts. \<exists>out. snd t = Inr out \<and> combat_out out = Some (Some c)"
proof (induction ts)
  case Nil
  then show ?case by (simp add: combat_buffer_def)
next
  case (Cons t ts)
  have split: "combat_buffer (t # ts) =
      (case snd t of Inl e \<Rightarrow> [] | Inr out \<Rightarrow> (case combat_out out of None \<Rightarrow> [] | Some r \<Rightarrow> [r]))
      @ combat_buffer ts"
    by (simp add: combat_buffer_def)
  show ?case
  proof (cases "c \<in> set (hits (combat_buffer ts))")
    case True
    with Cons.IH show ?thesis by auto
  next
    case False
    have hits_app: "\<And>xs ys. hits (xs @ ys) = hits xs @ hits ys"
    proof -
      fix xs ys :: "combat option list"
      show "hits (xs @ ys) = hits xs @ hits ys"
        by (induction xs rule: hits.induct) simp_all
    qed
    from Cons.prems False show ?thesis
      unfolding split hits_app
      by (auto simp: hits_single split: sum.splits option.splits)
  qed
qed

lemma item_pickups_mem:
  "p \<in> set (item_pickups ts) \<Longrightarrow>
   \<exists>t\<in>set ts. \<exists>out. snd t = Inr out \<and> pickup_out out = Some p"
proof (induction ts)
  case Nil
  then show ?case by (simp add: item_pickups_def)
next
  case (Cons t ts)
  have split: "item_pickups (t # ts) =
      (case snd t of Inl e \<Rightarrow> [] | Inr out \<Rightarrow> (case pickup_out out of None \<Rightarrow> [] | Some q \<Rightarrow> [q]))
      @ item_pickups ts"
    by (simp add: item_pickups_def)
  show ?case
  proof (cases "p \<in> set (item_pickups ts)")
    case True
    with Cons.IH show ?thesis by auto
  next
    case False
    with Cons.prems have "p \<in> set (case snd t of Inl e \<Rightarrow> []
        | Inr out \<Rightarrow> (case pickup_out out of None \<Rightarrow> [] | Some q \<Rightarrow> [q]))"
      unfolding split by simp
    then have "\<exists>out. snd t = Inr out \<and> pickup_out out = Some p"
      by (cases "snd t") (auto split: option.splits)
    then show ?thesis by auto
  qed
qed

lemma collect_fold:
  assumes "fold (\<lambda>t m. case snd t of Inl e \<Rightarrow> m | Inr out \<Rightarrow> m(agent_id (fst t) \<mapsto> upd out)) L m k
            = Some u"
  shows "m k = Some u \<or> (\<exists>t\<in>set L. \<exists>out. snd t = Inr out \<and> agent_id (fst t) = k \<and> u = upd out)"
  using assms
proof (induction L arbitrary: m)
  case Nil
  then show ?case by simp
next
  case (Cons t L)
  from Cons.IH [OF Cons.prems [simplified]] show ?case
    by (auto split: sum.splits if_splits)
qed

lemma collect_Some:
  assumes "collect ts k = Some u"
  shows "\<exists>t\<in>set ts. \<exists>out. snd t = Inr out \<and> agent_id (fst t) = k \<and> u = upd out"
  using collect_fold [OF assms [unfolded collect_def]] by auto

lemma collect_fold_dom:
  "(fold (\<lambda>t m. case snd t of Inl e \<Rightarrow> m | Inr out \<Rightarrow> m(agent_id (fst t) \<mapsto> upd out)) L m k = None)
   = (m k = None \<and> \<not> (\<exists>t\<in>set L. \<exists>out. snd t = Inr out \<and> agent_id (fst t) = k))"
proof (induction L arbitrary: m)
  case Nil
  then show ?case by simp
next
  case (Cons t L)
  show ?case
    by (cases "snd t") (auto simp: Cons.IH)
qed

lemma collect_None:
  "(collect ts k = None) = (\<not> (\<exists>t\<in>set ts. \<exists>out. snd t = Inr out \<and> agent_id (fst t) = k))"
  unfolding collect_def collect_fold_dom by auto

lemma below_sixty_percent:
  "(of_int x < of_int m * (6 / 10 :: rat)) = (5 * x < 3 * m)"
proof -
  have "(of_int x < of_int m * (6 / 10 :: rat)) = (of_int (10 * x) < (of_int (6 * m) :: rat))"
    by (simp add: field_simps)
  also have "\<dots> = (10 * x < 6 * m)" by (simp only: of_int_less_iff)
  also have "\<dots> = (5 * x < 3 * m)" by auto
  finally show ?thesis .
qed

lemma find_nearest_Nil [simp]: "find_nearest px py pos [] = None"
  by (simp add: find_nearest_def)

lemma same_identity_heal: "same_identity h (doctor_heal h)"
  by (simp add: same_identity_def doctor_heal_def Let_def)

lemma same_identity_assign: "same_identity h (assign_role_to_human h it)"
  by (simp add: same_identity_def assign_role_to_human_def)

lemma same_identity_trans: "same_identity a b \<Longrightarrow> same_identity b c \<Longrightarrow> same_identity a c"
  by (simp add: same_identity_def)

lemma fold_pick_up_item:
  "fold pick_up_item ps tbl = map (pickup_effect ps) tbl"
proof (induction ps arbitrary: tbl)
  case Nil
  then show ?case by (simp add: pickup_effect_def)
next
  case (Cons p ps)
  have "map (pickup_effect ps) (pick_up_item p tbl) = map (pickup_effect (p # ps)) tbl"
    by (auto simp: pick_up_item_def pickup_effect_def map_add_def split: option.splits)
  then show ?case using Cons.IH by simp
qed

lemmas worker_eval = get_alive_agents_def get_available_items_def
   spawn_human_def spawn_zombie_def empty_role_data_def process_human_turn_def process_zombie_turn_def
   doctor_heal_def item_in_reach_def no_role_def find_nearest_def agent_pos_def item_pos_def
   calculate_distance_sq_def in_reach_def calculate_attack_def randint_def random_random_def
   py_int_def direction_def move_step_def assign_role_to_human_def Let_def

lemmas merge_eval = run_round_def combat_buffer_def item_pickups_def collect_def
   apply_combat_results_def apply_combat_def take_damage_def batch_update_agents_def update_row_def
   pick_up_item_def Let_def

lemma two_on_one_tasks:
  "submit_all (two_on_one hp) (\<lambda>i k. 0) =
     [(spawn_human 1 ''Human_1'' 0 0,
       Inr \<lparr>upd = spawn_human 1 ''Human_1'' 0 0, combat_out = Some (Some (hit 1 3 10)),
            pickup_out = None\<rparr>),
      (spawn_human 2 ''Human_2'' 0 2,
       Inr \<lparr>upd = spawn_human 2 ''Human_2'' 0 2, combat_out = Some (Some (hit 2 3 10)),
            pickup_out = None\<rparr>),
      ((spawn_zombie 3 ''Zombie_1'' 0 1 None empty_role_data)\<lparr>health := hp\<rparr>,
       Inr \<lparr>upd = (spawn_zombie 3 ''Zombie_1'' 0 1 None empty_role_data)\<lparr>health := hp\<rparr>,
            combat_out = Some None, pickup_out = None\<rparr>)]"
  by (simp add: two_on_one_def submit_all_def hit_def worker_eval)

lemma two_on_one_log_id:
  "combat_log (run_round id (\<lambda>i k. 0) (two_on_one hp)) = [(1, hit 1 3 10), (1, hit 2 3 10)]"
  by (simp add: merge_eval two_on_one_tasks spawn_human_def spawn_zombie_def) (simp add: two_on_one_def)

lemma two_on_one_log_rev:
  "combat_log (run_round rev (\<lambda>i k. 0) (two_on_one hp)) = [(1, hit 2 3 10), (1, hit 1 3 10)]"
  by (simp add: merge_eval two_on_one_tasks spawn_human_def spawn_zombie_def) (simp add: two_on_one_def)

lemma sword_duel_round_1: "run_round id high_draws sword_duel = sword_duel_1"
  by (simp add: sword_duel_def sword_duel_1_def high_draws_def submit_all_def worker_eval merge_eval)

lemma run_round_agents:
  "agents_tbl (run_round sched d g) = batch_update_agents (merged_agents sched d g) (agents_tbl g)"
  by (simp add: run_round_def merged_agents_def Let_def)

lemma run_round_log:
  "combat_log (run_round sched d g) =
     combat_log g @ map (Pair (round_num g + 1)) (hits (combat_buffer (sched (submit_all g d))))"
  by (simp add: run_round_def Let_def apply_combat_results_log)

lemma submit_all_mem:
  assumes "t \<in> set (submit_all g d)"
  shows "fst t \<in> set (agents_tbl g)" and "is_alive (fst t)"
    and "\<And>out. snd t = Inr out \<Longrightarrow> worker_sound (grid_size g) (fst t) out"
proof -
  let ?gs = "\<lparr>humans = get_alive_agents g ''Human'', zombies = get_alive_agents g ''Zombie'',
              items = get_available_items g\<rparr>"
  from assms consider
    (human) "fst t \<in> set (get_alive_agents g ''Human'')"
      "snd t = process_human_turn (grid_size g) (fst t) ?gs (d (agent_id (fst t)))"
    | (zombie) "fst t \<in> set (get_alive_agents g ''Zombie'')"
      "snd t = process_zombie_turn (grid_size g) (fst t) ?gs (d (agent_id (fst t)))"
    by (auto simp: submit_all_def Let_def)
  then have "fst t \<in> set (agents_tbl g) \<and> is_alive (fst t) \<and>
      (\<forall>out. snd t = Inr out \<longrightarrow> worker_sound (grid_size g) (fst t) out)"
  proof cases
    case human
    then show ?thesis
      by (auto simp: get_alive_agents_def intro: human_worker_sound)
  next
    case zombie
    then show ?thesis
      by (auto simp: get_alive_agents_def intro: zombie_worker_sound)
  qed
  then show "fst t \<in> set (agents_tbl g)" and "is_alive (fst t)"
    and "\<And>out. snd t = Inr out \<Longrightarrow> worker_sound (grid_size g) (fst t) out"
    by auto
qed

lemma merged_agents_entry:
  assumes perm: "set (sched (submit_all g d)) = set (submit_all g d)"
    and entry: "merged_agents sched d g k = Some u"
  shows "\<exists>t\<in>set (submit_all g d). \<exists>out. agent_id (fst t) = k \<and> merged_from g t out u"
proof -
  let ?ts = "submit_all g d"
  let ?P = "\<lambda>k u. \<exists>t\<in>set ?ts. \<exists>out. agent_id (fst t) = k \<and> merged_from g t out u"
  have init: "?P k u" if "collect (sched ?ts) k = Some u" for k u
  proof -
    from collect_Some [OF that] perm obtain t out where
      t: "t \<in> set ?ts" "snd t = Inr out" "agent_id (fst t) = k" "u = upd out" by auto
    from submit_all_mem [OF t(1)] t(2)
    have ws: "worker_sound (grid_size g) (fst t) out" and row: "fst t \<in> set (agents_tbl g)" by auto
    then have "merged_from g t out u"
      using t by (auto simp: merged_from_def worker_sound_def)
    with t show ?thesis by blast
  qed
  have step: "?P k (take_damage (damage c) u)"
    if "?P k u" and c: "c \<in> set (hits (combat_buffer (sched ?ts)))" for k u c
  proof -
    from that(1) obtain t out where t: "t \<in> set ?ts" "agent_id (fst t) = k" "merged_from g t out u"
      by blast
    have dmg: "0 \<le> damage c" if good: "\<forall>a\<in>set (agents_tbl g). health_inv a \<and> nonneg_multiplier a"
    proof -
      from combat_buffer_hit [OF c] perm obtain t' out' where
        t': "t' \<in> set ?ts" "snd t' = Inr out'" "combat_out out' = Some (Some c)" by auto
      from submit_all_mem [OF t'(1)] t'(2)
      have "worker_sound (grid_size g) (fst t') out'" "fst t' \<in> set (agents_tbl g)" by auto
      with good t'(3) show ?thesis by (auto simp: worker_sound_def)
    qed
    have "merged_from g t out (take_damage (damage c) u)"
      using t(3) dmg by (auto simp: merged_from_def take_damage_frame take_damage_health_inv)
    with t show ?thesis by blast
  qed
  from entry have "fst (apply_combat_results (round_num g + 1) (combat_buffer (sched ?ts))
            (collect (sched ?ts), combat_log g)) k = Some u"
    by (simp add: merged_agents_def)
  then show ?thesis
  proof (rule apply_combat_results_preserves [where P = ?P])
    fix k u
    assume "collect (sched ?ts) k = Some u"
    then show "?P k u" by (rule init)
  next
    fix k u c
    assume "?P k u" and "c \<in> set (hits (combat_buffer (sched ?ts)))"
    then show "?P k (take_damage (damage c) u)" by (rule step)
  qed
qed

lemma row_unique:
  assumes "distinct (map agent_id tbl)"
    and "a \<in> set tbl" and "b \<in> set tbl" and "agent_id a = agent_id b"
  shows "a = b"
proof -
  have "inj_on agent_id (set tbl)" using assms(1) by (simp add: distinct_map)
  then show ?thesis using assms(4,2,3) by (rule inj_onD)
qed

lemma submit_all_distinct:
  assumes "distinct (map agent_id (agents_tbl g))"
  shows "distinct (map (\<lambda>t. agent_id (fst t)) (submit_all g d))"
proof -
  let ?H = "get_alive_agents g ''Human''" and ?Z = "get_alive_agents g ''Zombie''"
  have ids: "map (\<lambda>t. agent_id (fst t)) (submit_all g d) = map agent_id ?H @ map agent_id ?Z"
    by (simp add: submit_all_def Let_def comp_def)
  have "distinct (map agent_id ?H)" "distinct (map agent_id ?Z)"
    using assms by (simp_all add: get_alive_agents_def distinct_map_filter)
  moreover have "set (map agent_id ?H) \<inter> set (map agent_id ?Z) = {}"
  proof (rule ccontr)
    assume "set (map agent_id ?H) \<inter> set (map agent_id ?Z) \<noteq> {}"
    then obtain a b where ab: "a \<in> set ?H" "b \<in> set ?Z" "agent_id a = agent_id b" by auto
    then have rows: "a \<in> set (agents_tbl g)" "b \<in> set (agents_tbl g)"
      and types: "agent_type a = ''Human''" "agent_type b = ''Zombie''"
      by (simp_all add: get_alive_agents_def)
    from rows ab(3) have "a = b" by (rule row_unique [OF assms])
    with types show False by simp
  qed
  ultimately show ?thesis unfolding ids by simp
qed

lemma task_unique:
  assumes "distinct (map agent_id (agents_tbl g))"
    and "t \<in> set (submit_all g d)" and "t' \<in> set (submit_all g d)"
    and "agent_id (fst t) = agent_id (fst t')"
  shows "t = t'"
proof -
  have "inj_on (\<lambda>t. agent_id (fst t)) (set (submit_all g d))"
    using submit_all_distinct [OF assms(1), of d] by (simp add: distinct_map)
  then show ?thesis using assms(4,2,3) by (rule inj_onD)
qed

lemma merged_agents_None:
  "(merged_agents sched d g k = None) = (collect (sched (submit_all g d)) k = None)"
  by (simp add: merged_agents_def apply_combat_results_dom)

lemma list_all2_mapI:
  "(\<And>x. x \<in> set xs \<Longrightarrow> P x (f x)) \<Longrightarrow> list_all2 P xs (map f xs)"
  by (simp add: list_all2_map2 list_all2_same)

lemma merged_row:
  assumes perm: "set (sched (submit_all g d)) = set (submit_all g d)"
    and dist: "distinct (map agent_id (agents_tbl g))"
    and row: "row \<in> set (agents_tbl g)"
    and entry: "merged_agents sched d g (agent_id row) = Some u"
  shows "\<exists>out. (row, Inr out) \<in> set (submit_all g d) \<and> merged_from g (row, Inr out) out u \<and>
           worker_sound (grid_size g) row out"
proof -
  from merged_agents_entry [OF perm entry] obtain t out where
    t: "t \<in> set (submit_all g d)" "agent_id (fst t) = agent_id row" "merged_from g t out u"
    by blast
  from submit_all_mem(1) [OF t(1)] row t(2) have "fst t = row"
    by (rule row_unique [OF dist])
  moreover from t(3) have "snd t = Inr out" by (simp add: merged_from_def)
  ultimately have eq: "t = (row, Inr out)" by (cases t) simp
  with submit_all_mem(3) [OF t(1)] have "worker_sound (grid_size g) row out" by simp
  with t eq show ?thesis by auto
qed

lemma take_damage_effect:
  "health (take_damage dmg t) = max 0 (health t - dmg) \<and>
   is_alive (take_damage dmg t) = (is_alive t \<and> 0 < health t - dmg)"
  by (simp add: take_damage_def Let_def)

lemma doctor_heal_le_max:
  "health h \<le> max_health h \<Longrightarrow> health (doctor_heal h) \<le> max_health h"
  by (simp add: doctor_heal_def Let_def)

lemma failed_task_no_success:
  assumes dist: "distinct (map agent_id (agents_tbl g))"
    and fail: "(a, Inl e) \<in> set (submit_all g d)"
    and t: "t \<in> set (submit_all g d)" and ok: "snd t = Inr out"
  shows "agent_id (fst t) \<noteq> agent_id a"
proof
  assume "agent_id (fst t) = agent_id a"
  then have "t = (a, Inl e)" using task_unique [OF dist t fail] by simp
  with ok show False by simp
qed

lemma apply_combat_results_fst:
  "fst (apply_combat_results rn buf (ad, lg)) = fold apply_damage buf ad"
proof (induction buf arbitrary: ad lg)
  case Nil
  then show ?case by simp
next
  case (Cons e es)
  then show ?case
    by (cases e) (simp_all add: apply_combat_Some apply_damage_def)
qed

lemma take_damage_commute:
  assumes "0 \<le> d1" and "0 \<le> d2"
  shows "take_damage d1 (take_damage d2 t) = take_damage d2 (take_damage d1 t)"
  using assms by (auto simp: take_damage_def Let_def)

lemma apply_damage_commute:
  assumes "nonneg_entry x" and "nonneg_entry y"
  shows "apply_damage x (apply_damage y ad) = apply_damage y (apply_damage x ad)"
proof (cases x)
  case None
  then show ?thesis by (simp add: apply_damage_def)
next
  case x: (Some cx)
  show ?thesis
  proof (cases y)
    case None
    then show ?thesis by (simp add: apply_damage_def)
  next
    case y: (Some cy)
    from assms x y have d: "0 \<le> damage cx" "0 \<le> damage cy" by (simp_all add: nonneg_entry_def)
    show ?thesis
    proof (cases "target_id cx = target_id cy")
      case True
      then show ?thesis
        using take_damage_commute [OF d] x y
        by (simp add: apply_damage_def split: option.splits)
    next
      case False
      then show ?thesis using x y
        by (auto simp: apply_damage_def fun_upd_twist split: option.splits)
    qed
  qed
qed

lemma fold_apply_damage_perm:
  assumes "\<forall>e\<in>set xs. nonneg_entry e" and "mset xs = mset ys"
  shows "fold apply_damage xs = fold apply_damage ys"
proof (rule fold_multiset_equiv [OF _ assms(2)])
  fix x y
  assume "x \<in> set xs" and "y \<in> set xs"
  with assms(1) have n: "nonneg_entry x" "nonneg_entry y" by auto
  show "apply_damage x \<circ> apply_damage y = apply_damage y \<circ> apply_damage x"
  proof (rule ext)
    fix ad
    show "(apply_damage x \<circ> apply_damage y) ad = (apply_damage y \<circ> apply_damage x) ad"
      using apply_damage_commute [OF n, of ad] by simp
  qed
qed

lemma mset_hits: "mset (hits xs) = image_mset the (filter_mset (\<lambda>e. e \<noteq> None) (mset xs))"
  by (induction xs rule: hits.induct) simp_all

lemma mset_concat_map:
  "mset xs = mset ys \<Longrightarrow> mset (concat (map f xs)) = mset (concat (map f ys))"
proof -
  assume eq: "mset xs = mset ys"
  have "mset (concat (map f zs)) = (\<Sum>z\<in>#mset zs. mset (f z))" for zs
    by (induction zs) simp_all
  then show ?thesis using eq by simp
qed

lemma combat_buffer_perm:
  "mset xs = mset ys \<Longrightarrow> mset (combat_buffer xs) = mset (combat_buffer ys)"
  unfolding combat_buffer_def by (rule mset_concat_map)

lemma collect_unique:
  assumes set: "set X = set (submit_all g d)"
    and dist: "distinct (map agent_id (agents_tbl g))"
    and t: "t \<in> set (submit_all g d)" and ok: "snd t = Inr out"
  shows "collect X (agent_id (fst t)) = Some (upd out)"
proof -
  from t ok set have "collect X (agent_id (fst t)) \<noteq> None"
    unfolding collect_None by auto
  then obtain u where u: "collect X (agent_id (fst t)) = Some u" by auto
  from collect_Some [OF u] set obtain t' out' where
    t': "t' \<in> set (submit_all g d)" "snd t' = Inr out'" "agent_id (fst t') = agent_id (fst t)"
      "u = upd out'" by auto
  have "t' = t" using task_unique [OF dist t'(1) t t'(3)] .
  with t' ok u show ?thesis by simp
qed

lemma collect_perm:
  assumes set: "set X = set (submit_all g d)"
    and dist: "distinct (map agent_id (agents_tbl g))"
  shows "collect X = collect (submit_all g d)"
proof
  fix k
  show "collect X k = collect (submit_all g d) k"
  proof (cases "\<exists>t\<in>set (submit_all g d). \<exists>out. snd t = Inr out \<and> agent_id (fst t) = k")
    case True
    then obtain t out where t: "t \<in> set (submit_all g d)" "snd t = Inr out" "agent_id (fst t) = k"
      by blast
    from collect_unique [OF set dist t(1,2)] collect_unique [OF refl dist t(1,2)] t(3)
    show ?thesis by simp
  next
    case False
    then have "collect X k = None" "collect (submit_all g d) k = None"
      unfolding collect_None set by simp_all
    then show ?thesis by simp
  qed
qed

lemma buffer_nonneg:
  assumes good: "\<forall>a\<in>set (agents_tbl g). nonneg_multiplier a"
  shows "\<forall>e\<in>set (combat_buffer (submit_all g d)). nonneg_entry e"
proof
  fix e
  assume e: "e \<in> set (combat_buffer (submit_all g d))"
  show "nonneg_entry e"
  proof (cases e)
    case None
    then show ?thesis by (simp add: nonneg_entry_def)
  next
    case (Some c)
    with e have "c \<in> set_mset (mset (hits (combat_buffer (submit_all g d))))"
      unfolding mset_hits by force
    then have "c \<in> set (hits (combat_buffer (submit_all g d)))" by simp
    from combat_buffer_hit [OF this] obtain t out where
      t: "t \<in> set (submit_all g d)" "snd t = Inr out" "combat_out out = Some (Some c)" by auto
    from submit_all_mem [OF t(1)] t(2) good t(3) have "0 \<le> damage c"
      by (auto simp: worker_sound_def)
    with Some show ?thesis by (simp add: nonneg_entry_def)
  qed
qed

lemma run_round_ids:
  "map agent_id (agents_tbl (run_round sched d g)) = map agent_id (agents_tbl g)"
  by (simp add: run_round_agents batch_update_agents_def update_row_def comp_def
      split: option.splits cong: map_cong)

lemma spawn_human_ok:
  "health_inv (spawn_human i n px py)" "nonneg_multiplier (spawn_human i n px py)"
  "in_grid gs (spawn_human i n px py) = (0 \<le> px \<and> px < gs \<and> 0 \<le> py \<and> py < gs)"
  by (simp_all add: spawn_human_def health_inv_def nonneg_multiplier_def empty_role_data_def
      in_grid_def)

lemma spawn_zombie_ok:
  "health_inv (spawn_zombie i n px py r rd)"
  "nonneg_multiplier (spawn_zombie i n px py r rd) =
     (case attack_multiplier rd of None \<Rightarrow> True | Some m \<Rightarrow> 0 \<le> m)"
  "in_grid gs (spawn_zombie i n px py r rd) = (0 \<le> px \<and> px < gs \<and> 0 \<le> py \<and> py < gs)"
  by (simp_all add: spawn_zombie_def health_inv_def nonneg_multiplier_def in_grid_def)

lemma calculate_attack_base_range:
  assumes "calculate_attack a t d = Inr (Some c)"
  shows "\<exists>base. py_int (of_int (attack_power a) * (5 / 10)) \<le> base \<and> base \<le> attack_power a \<and>
           damage c = py_int (of_int base *
             ((case attack_multiplier (role_data a) of None \<Rightarrow> 1 | Some m \<Rightarrow> m) *
              (if was_critical c then 15 / 10 else 1)))"
proof -
  let ?i = "if agent_type a = ''Zombie'' then 1 else 0 :: nat"
  from assms obtain base where
    base: "randint (d ?i) (py_int (of_int (attack_power a) * (5 / 10))) (attack_power a) = Inr base"
    by (auto simp: calculate_attack_def Let_def split: if_splits sum.splits)
  from assms base have "damage c = py_int (of_int base *
             ((case attack_multiplier (role_data a) of None \<Rightarrow> 1 | Some m \<Rightarrow> m) *
              (if was_critical c then 15 / 10 else 1)))"
    by (auto simp: calculate_attack_def Let_def split: if_splits)
  with randint_bounds [OF base] show ?thesis by blast
qed

lemma assign_role_to_human_effect:
  "item_type it = ''Sword'' \<Longrightarrow> 0 \<le> base_attack_power h \<Longrightarrow>
     assign_role_to_human h it =
       h\<lparr>role_name := Some ''Hunter'', attack_power := (3 * base_attack_power h) div 2,
         role_data := empty_role_data\<lparr>attack_multiplier := Some 2,
                                       critical_chance := Some (3 / 10)\<rparr>\<rparr>"
  "item_type it = ''MedKit'' \<Longrightarrow>
     assign_role_to_human h it =
       h\<lparr>role_name := Some ''Doctor'',
         role_data := empty_role_data\<lparr>heal_charges := Some 3, heal_amount := Some (5 / 10)\<rparr>\<rparr>"
proof -
  assume sword: "item_type it = ''Sword''" and b: "0 \<le> base_attack_power h"
  have "of_int (base_attack_power h) * (15 / 10 :: rat) = of_int (3 * base_attack_power h) / of_int 2"
    by simp
  then have "\<lfloor>of_int (base_attack_power h) * (15 / 10 :: rat)\<rfloor> = (3 * base_attack_power h) div 2"
    by (simp only: floor_divide_of_int_eq)
  moreover have "\<not> of_int (base_attack_power h) * (15 / 10 :: rat) < 0" using b by simp
  ultimately have "py_int (of_int (base_attack_power h) * (15 / 10)) = (3 * base_attack_power h) div 2"
    by (simp add: py_int_def)
  then show "assign_role_to_human h it =
       h\<lparr>role_name := Some ''Hunter'', attack_power := (3 * base_attack_power h) div 2,
         role_data := empty_role_data\<lparr>attack_multiplier := Some 2,
                                       critical_chance := Some (3 / 10)\<rparr>\<rparr>"
    using sword by (simp add: assign_role_to_human_def del: of_int_mult)
next
  assume "item_type it = ''MedKit''"
  then show "assign_role_to_human h it =
       h\<lparr>role_name := Some ''Doctor'',
         role_data := empty_role_data\<lparr>heal_charges := Some 3, heal_amount := Some (5 / 10)\<rparr>\<rparr>"
    by (simp add: assign_role_to_human_def)
qed

lemma wounded_take_damage:
  assumes "0 \<le> d" and "\<forall>x\<in>set ds. 0 \<le> x"
  shows "wounded ds (take_damage d t) = wounded (d # ds) t"
proof -
  have "0 \<le> sum_list ds" using assms(2) by (intro sum_list_nonneg) simp
  then show ?thesis using assms(1)
    by (cases t) (auto simp: take_damage_def wounded_def Let_def)
qed

lemma fold_take_damage:
  "\<forall>x\<in>set ds. 0 \<le> x \<Longrightarrow> fold take_damage ds t = wounded ds t"
proof (induction ds arbitrary: t)
  case Nil
  then show ?case by (simp add: wounded_def)
next
  case (Cons d ds)
  then show ?case by (simp add: wounded_take_damage)
qed

lemma damages_on_simps:
  "damages_on k [] = []"
  "damages_on k (None # es) = damages_on k es"
  "damages_on k (Some c # es) =
     (if target_id c = k then damage c # damages_on k es else damages_on k es)"
  by (simp_all add: damages_on_def)

lemma fold_apply_damage_key:
  "fold apply_damage buf ad k = map_option (fold take_damage (damages_on k buf)) (ad k)"
proof (induction buf arbitrary: ad)
  case Nil
  then show ?case by (simp add: damages_on_simps option.map_ident)
next
  case (Cons e es)
  show ?case
  proof (cases e)
    case None
    then show ?thesis using Cons.IH by (simp add: apply_damage_def damages_on_simps)
  next
    case (Some c)
    then show ?thesis using Cons.IH
      by (auto simp: apply_damage_def damages_on_simps split: option.splits)
  qed
qed

lemma hits_mem: "(c \<in> set (hits buf)) = (Some c \<in> set buf)"
  by (induction buf rule: hits.induct) auto

lemma damages_on_nonneg:
  "\<forall>e\<in>set buf. nonneg_entry e \<Longrightarrow> \<forall>x\<in>set (damages_on k buf). 0 \<le> x"
  by (auto simp: damages_on_def hits_mem nonneg_entry_def)

lemma apply_combat_results_key:
  assumes "\<forall>e\<in>set buf. nonneg_entry e"
  shows "fst (apply_combat_results rn buf (ad, lg)) k =
     map_option (wounded (damages_on k buf)) (ad k)"
  unfolding apply_combat_results_fst fold_apply_damage_key
  using fold_take_damage [OF damages_on_nonneg [OF assms, of k]]
  by (cases "ad k") simp_all

lemma set_combat_buffer: "set xs = set ys \<Longrightarrow> set (combat_buffer xs) = set (combat_buffer ys)"
  by (simp add: combat_buffer_def)

lemma combat_buffer_mem:
  "t \<in> set ts \<Longrightarrow> snd t = Inr out \<Longrightarrow> combat_out out = Some r \<Longrightarrow> r \<in> set (combat_buffer ts)"
  by (force simp: combat_buffer_def)

lemma item_pickups_intro:
  "t \<in> set ts \<Longrightarrow> snd t = Inr out \<Longrightarrow> pickup_out out = Some p \<Longrightarrow> p \<in> set (item_pickups ts)"
  by (cases p) (force simp: item_pickups_def)

lemma merged_agents_key:
  assumes set: "set (sched (submit_all g d)) = set (submit_all g d)"
    and dist: "distinct (map agent_id (agents_tbl g))"
    and good: "\<forall>a\<in>set (agents_tbl g). nonneg_multiplier a"
    and t: "t \<in> set (submit_all g d)" and ok: "snd t = Inr out"
  shows "merged_agents sched d g (agent_id (fst t)) =
     Some (wounded (damages_on (agent_id (fst t)) (combat_buffer (sched (submit_all g d)))) (upd out))"
proof -
  have "\<forall>e\<in>set (combat_buffer (sched (submit_all g d))). nonneg_entry e"
    using buffer_nonneg [OF good, of d] set_combat_buffer [OF set] by simp
  then show ?thesis
    unfolding merged_agents_def
    by (simp add: apply_combat_results_key collect_unique [OF set dist t ok])
qed

lemma unsubmitted_row:
  assumes set: "set (sched (submit_all g d)) = set (submit_all g d)"
    and dist: "distinct (map agent_id (agents_tbl g))"
    and row: "row \<in> set (agents_tbl g)"
    and none: "\<forall>out. (row, Inr out) \<notin> set (submit_all g d)"
  shows "merged_agents sched d g (agent_id row) = None"
proof -
  have "\<not> (\<exists>t\<in>set (submit_all g d). \<exists>out. snd t = Inr out \<and> agent_id (fst t) = agent_id row)"
  proof
    assume "\<exists>t\<in>set (submit_all g d). \<exists>out. snd t = Inr out \<and> agent_id (fst t) = agent_id row"
    then obtain t out where t: "t \<in> set (submit_all g d)" "snd t = Inr out"
      "agent_id (fst t) = agent_id row" by blast
    from submit_all_mem(1) [OF t(1)] row t(3) have "fst t = row" by (rule row_unique [OF dist])
    with t(2) have "t = (row, Inr out)" by (cases t) simp
    with t(1) none show False by simp
  qed
  then show ?thesis unfolding merged_agents_None collect_None set .
qed

lemma run_round_items:
  "items_tbl (run_round sched d g) =
     map (pickup_effect (item_pickups (sched (submit_all g d)))) (items_tbl g)"
  by (simp add: run_round_def Let_def fold_pick_up_item)

lemma run_game_loop_round: "round_num g \<le> round_num (run_game_loop scheds draws m g)"
proof (induction scheds draws m g rule: run_game_loop.induct)
  case (1 scheds draws m g)
  show ?case
  proof (cases "\<not> is_game_over g \<and> round_num g < m")
    case True
    have "round_num (run_round (scheds (round_num g + 1)) (draws (round_num g + 1)) g)
        = round_num g + 1"
      by (simp add: run_round_def Let_def)
    with 1 [OF True] True show ?thesis by (subst run_game_loop.simps) simp
  next
    case False
    then show ?thesis by (subst run_game_loop.simps) auto
  qed
qed

lemma run_game_loop_final:
  "is_game_over (run_game_loop scheds draws m g) \<or> m \<le> round_num (run_game_loop scheds draws m g)"
proof (induction scheds draws m g rule: run_game_loop.induct)
  case (1 scheds draws m g)
  show ?case
  proof (cases "\<not> is_game_over g \<and> round_num g < m")
    case True
    with 1 [OF True] show ?thesis by (subst (1 2) run_game_loop.simps) simp
  next
    case False
    then show ?thesis by (subst (1 2) run_game_loop.simps) auto
  qed
qed

lemma run_round_rows:
  assumes set: "set (sched (submit_all g d)) = set (submit_all g d)"
    and dist: "distinct (map agent_id (agents_tbl g))"
    and good: "\<forall>a\<in>set (agents_tbl g). nonneg_multiplier a"
  shows "list_all2 (\<lambda>row row'. \<forall>out. (row, Inr out) \<in> set (submit_all g d) \<longrightarrow>
             row' = row\<lparr>health := health (wounded (damages_on (agent_id row)
                                        (combat_buffer (sched (submit_all g d)))) (upd out)),
                        is_alive := is_alive (wounded (damages_on (agent_id row)
                                        (combat_buffer (sched (submit_all g d)))) (upd out)),
                        agent_x := agent_x (upd out), agent_y := agent_y (upd out),
                        role_name := role_name (upd out), role_data := role_data (upd out)\<rparr>)
     (agents_tbl g) (agents_tbl (run_round sched d g))"
  unfolding run_round_agents batch_update_agents_def
proof (rule list_all2_mapI, intro allI impI)
  fix row out
  assume "(row, Inr out) \<in> set (submit_all g d)"
  from merged_agents_key [of sched g d, OF set dist good this]
  show "(case merged_agents sched d g (agent_id row) of None \<Rightarrow> row
         | Some a \<Rightarrow> update_row a row) =
        row\<lparr>health := health (wounded (damages_on (agent_id row)
                                        (combat_buffer (sched (submit_all g d)))) (upd out)),
            is_alive := is_alive (wounded (damages_on (agent_id row)
                                        (combat_buffer (sched (submit_all g d)))) (upd out)),
            agent_x := agent_x (upd out), agent_y := agent_y (upd out),
            role_name := role_name (upd out), role_data := role_data (upd out)\<rparr>"
    by (simp add: update_row_def wounded_def)
qed

lemma run_round_rows_unsubmitted:
  assumes set: "set (sched (submit_all g d)) = set (submit_all g d)"
    and dist: "distinct (map agent_id (agents_tbl g))"
  shows "list_all2 (\<lambda>row row'. (\<forall>out. (row, Inr out) \<notin> set (submit_all g d)) \<longrightarrow> row' = row)
     (agents_tbl g) (agents_tbl (run_round sched d g))"
  unfolding run_round_agents batch_update_agents_def
proof (rule list_all2_mapI, intro impI)
  fix row
  assume "row \<in> set (agents_tbl g)" and "\<forall>out. (row, Inr out) \<notin> set (submit_all g d)"
  with unsubmitted_row [of sched g d, OF set dist]
  show "(case merged_agents sched d g (agent_id row) of None \<Rightarrow> row
         | Some a \<Rightarrow> update_row a row) = row"
    by simp
qed

lemma run_round_logs_hit:
  assumes set: "set (sched (submit_all g d)) = set (submit_all g d)"
    and t: "t \<in> set (submit_all g d)" and ok: "snd t = Inr out"
    and c: "combat_out out = Some (Some c)"
  shows "(round_num g + 1, c) \<in> set (drop (length (combat_log g)) (combat_log (run_round sched d g)))"
proof -
  from t set have "t \<in> set (sched (submit_all g d))" by simp
  from combat_buffer_mem [OF this ok c] show ?thesis
    by (simp add: run_round_log hits_mem)
qed

lemma faulty_worker_tasks:
  "submit_all faulty_worker (\<lambda>i k. 0) =
     [((spawn_human 1 ''Human_1'' 0 0)\<lparr>attack_power := - 1\<rparr>, Inl ValueError),
      (spawn_human 2 ''Human_2'' 0 2,
       Inr \<lparr>upd = spawn_human 2 ''Human_2'' 0 2, combat_out = Some (Some (hit 2 4 10)),
            pickup_out = None\<rparr>),
      (spawn_human 3 ''Human_3'' 10 10,
       Inr \<lparr>upd = (spawn_human 3 ''Human_3'' 10 10)
                    \<lparr>role_name := Some ''Doctor'',
                     role_data := empty_role_data\<lparr>heal_charges := Some 3,
                                                   heal_amount := Some (5 / 10)\<rparr>\<rparr>,
            combat_out = None, pickup_out = Some (1, 3)\<rparr>),
      (spawn_zombie 4 ''Zombie_1'' 0 1 None empty_role_data,
       Inr \<lparr>upd = spawn_zombie 4 ''Zombie_1'' 0 1 None empty_role_data,
            combat_out = Some None, pickup_out = None\<rparr>)]"
  by (simp add: faulty_worker_def submit_all_def hit_def worker_eval)

lemma faulty_worker_round:
  "combat_log (run_round id (\<lambda>i k. 0) faulty_worker) = [(1, hit 2 4 10)]"
  "map (\<lambda>a. (health a, is_alive a, role_name a)) (agents_tbl (run_round id (\<lambda>i k. 0) faulty_worker)) =
     [(100, True, None), (100, True, None), (100, True, Some ''Doctor''), (70, True, None)]"
  "map (\<lambda>i. (picked_up i, picked_by_agent_id i)) (items_tbl (run_round id (\<lambda>i k. 0) faulty_worker)) =
     [(True, Some 3)]"
  by (simp_all add: merge_eval faulty_worker_tasks spawn_human_def spawn_zombie_def hit_def)
     (simp_all add: faulty_worker_def spawn_human_def spawn_zombie_def merge_eval)

lemma two_on_one_served_in_turn:
  "submit_all (two_on_one hp) (shared_draws (\<lambda>n. n) [1, 2, 3]) =
     [(spawn_human 1 ''Human_1'' 0 0,
       Inr \<lparr>upd = spawn_human 1 ''Human_1'' 0 0, combat_out = Some (Some (hit 1 3 10)),
            pickup_out = None\<rparr>),
      (spawn_human 2 ''Human_2'' 0 2,
       Inr \<lparr>upd = spawn_human 2 ''Human_2'' 0 2, combat_out = Some (Some (hit 2 3 11)),
            pickup_out = None\<rparr>),
      ((spawn_zombie 3 ''Zombie_1'' 0 1 None empty_role_data)\<lparr>health := hp\<rparr>,
       Inr \<lparr>upd = (spawn_zombie 3 ''Zombie_1'' 0 1 None empty_role_data)\<lparr>health := hp\<rparr>,
            combat_out = Some None, pickup_out = None\<rparr>)]"
  by (simp add: two_on_one_def submit_all_def hit_def shared_draws_def worker_eval)

lemma two_on_one_zombie_served_first:
  "submit_all (two_on_one hp) (shared_draws (\<lambda>n. n) [3, 1, 2]) =
     [(spawn_human 1 ''Human_1'' 0 0,
       Inr \<lparr>upd = spawn_human 1 ''Human_1'' 0 0, combat_out = Some (Some (hit 1 3 11)),
            pickup_out = None\<rparr>),
      (spawn_human 2 ''Human_2'' 0 2,
       Inr \<lparr>upd = spawn_human 2 ''Human_2'' 0 2, combat_out = Some (Some (hit 2 3 12)),
            pickup_out = None\<rparr>),
      ((spawn_zombie 3 ''Zombie_1'' 0 1 None empty_role_data)\<lparr>health := hp\<rparr>,
       Inr \<lparr>upd = (spawn_zombie 3 ''Zombie_1'' 0 1 None empty_role_data)\<lparr>health := hp\<rparr>,
            combat_out = Some None, pickup_out = None\<rparr>)]"
  by (simp add: two_on_one_def submit_all_def hit_def shared_draws_def worker_eval)

lemma hits_combat_buffer: "hits (combat_buffer ts) = List.map_filter returned_hit ts"
proof (induction ts)
  case Nil
  then show ?case by (simp add: combat_buffer_def List.map_filter_simps)
next
  case (Cons t ts)
  have split: "combat_buffer (t # ts) =
      (case snd t of Inl e \<Rightarrow> [] | Inr out \<Rightarrow> (case combat_out out of None \<Rightarrow> [] | Some r \<Rightarrow> [r]))
      @ combat_buffer ts"
    by (simp add: combat_buffer_def)
  have app: "hits (xs @ ys) = hits xs @ hits ys" for xs ys
    by (induction xs rule: hits.induct) simp_all
  have head: "hits (case snd t of Inl e \<Rightarrow> []
                    | Inr out \<Rightarrow> (case combat_out out of None \<Rightarrow> [] | Some r \<Rightarrow> [r])) =
      (case returned_hit t of None \<Rightarrow> [] | Some c \<Rightarrow> [c])"
    by (simp add: returned_hit_def split: sum.splits option.splits)
  show ?case
    unfolding split app Cons.IH head
    by (simp add: List.map_filter_simps split: option.splits)
qed

lemma item_pickups_returned: "item_pickups ts = List.map_filter returned_pickup ts"
proof (induction ts)
  case Nil
  then show ?case by (simp add: item_pickups_def List.map_filter_simps)
next
  case (Cons t ts)
  have split: "item_pickups (t # ts) =
      (case snd t of Inl e \<Rightarrow> [] | Inr out \<Rightarrow> (case pickup_out out of None \<Rightarrow> [] | Some q \<Rightarrow> [q]))
      @ item_pickups ts"
    by (simp add: item_pickups_def)
  have head: "(case snd t of Inl e \<Rightarrow> []
               | Inr out \<Rightarrow> (case pickup_out out of None \<Rightarrow> [] | Some q \<Rightarrow> [q])) =
      (case returned_pickup t of None \<Rightarrow> [] | Some q \<Rightarrow> [q])"
    by (simp add: returned_pickup_def split: sum.splits option.splits)
  show ?case
    unfolding split Cons.IH head
    by (simp add: List.map_filter_simps split: option.splits)
qed

section \<open>Results\<close>

subsection \<open>C1\<close>

text \<open>
  C1, as the claim states it, fails twice, in \<open>two_on_one 80\<close>, where both humans attack
  the zombie and the zombie's attack misses.

  \<^verbatim>\<open>apply_combat_results\<close> walks \<^verbatim>\<open>combat_buffer\<close> in the order the workers appended to
  it and sorts nothing: with the same draws for every worker, the round logs the attack
  of agent 1 before that of agent 2 when the tasks finish in submission order, and after
  it when they finish in the reverse order.

  A seed fixes the stream of the shared generator, not the draws of a worker: every
  worker of this round makes one call, and from the stream \<open>0, 1, 2, \<dots>\<close> the zombie ends
  the round with health 59 when the calls are served in the order of agents 1, 2, 3 and
  with health 57 when the zombie's call is served first, the completion order being the
  same.
\<close>

theorem round_depends_on_interleaving:
  "combat_log (run_round id (\<lambda>i k. 0) (two_on_one 80)) = [(1, hit 1 3 10), (1, hit 2 3 10)] \<and>
   combat_log (run_round rev (\<lambda>i k. 0) (two_on_one 80)) = [(1, hit 2 3 10), (1, hit 1 3 10)] \<and>
   map health (agents_tbl (run_round id (shared_draws (\<lambda>n. n) [1, 2, 3]) (two_on_one 80))) =
     [100, 100, 59] \<and>
   map health (agents_tbl (run_round id (shared_draws (\<lambda>n. n) [3, 1, 2]) (two_on_one 80))) =
     [100, 100, 57] \<and>
   combat_log (run_round id (shared_draws (\<lambda>n. n) [1, 2, 3]) (two_on_one 80)) =
     [(1, hit 1 3 10), (1, hit 2 3 11)] \<and>
   combat_log (run_round id (shared_draws (\<lambda>n. n) [3, 1, 2]) (two_on_one 80)) =
     [(1, hit 1 3 11), (1, hit 2 3 12)]"
proof -
  have "map health (agents_tbl (run_round id (shared_draws (\<lambda>n. n) [1, 2, 3]) (two_on_one 80))) =
     [100, 100, 59]"
    by (simp add: merge_eval two_on_one_served_in_turn spawn_human_def spawn_zombie_def hit_def)
       (simp add: two_on_one_def spawn_human_def spawn_zombie_def merge_eval)
  moreover
  have "map health (agents_tbl (run_round id (shared_draws (\<lambda>n. n) [3, 1, 2]) (two_on_one 80))) =
     [100, 100, 57]"
    by (simp add: merge_eval two_on_one_zombie_served_first spawn_human_def spawn_zombie_def hit_def)
       (simp add: two_on_one_def spawn_human_def spawn_zombie_def merge_eval)
  moreover
  have "combat_log (run_round id (shared_draws (\<lambda>n. n) [1, 2, 3]) (two_on_one 80)) =
     [(1, hit 1 3 10), (1, hit 2 3 11)]"
    by (simp add: run_round_log combat_buffer_def two_on_one_served_in_turn) (simp add: two_on_one_def)
  moreover
  have "combat_log (run_round id (shared_draws (\<lambda>n. n) [3, 1, 2]) (two_on_one 80)) =
     [(1, hit 1 3 11), (1, hit 2 3 12)]"
    by (simp add: run_round_log combat_buffer_def two_on_one_zombie_served_first)
       (simp add: two_on_one_def)
  ultimately show ?thesis
    by (simp add: two_on_one_log_id two_on_one_log_rev)
qed

text \<open>
  C1, as amended. For a fixed snapshot and fixed draws of every worker, distinct agent
  ids and no negative attack multiplier, the agents table after the round is the same
  for every completion order of the workers. The combat log is the old log followed by
  the round's events in the order of the buffer, so two completion orders log the same
  events, possibly in a different order.
\<close>

theorem merged_agents_order_independent:
  assumes perm: "mset (sched (submit_all g d)) = mset (submit_all g d)"
    and dist: "distinct (map agent_id (agents_tbl g))"
    and good: "\<forall>a\<in>set (agents_tbl g). nonneg_multiplier a"
  shows "agents_tbl (run_round sched d g) = agents_tbl (run_round id d g) \<and>
    combat_log (run_round sched d g) =
      combat_log g @ map (Pair (round_num g + 1)) (hits (combat_buffer (sched (submit_all g d)))) \<and>
    mset (combat_log (run_round sched d g)) = mset (combat_log (run_round id d g))"
proof (intro conjI)
  let ?ts = "submit_all g d"
  from perm have set: "set (sched ?ts) = set ?ts" by (rule mset_eq_setD)
  have buf: "mset (combat_buffer ?ts) = mset (combat_buffer (sched ?ts))"
    using perm [symmetric] by (rule combat_buffer_perm)
  have "fold apply_damage (combat_buffer ?ts) = fold apply_damage (combat_buffer (sched ?ts))"
    using buffer_nonneg [OF good] buf by (rule fold_apply_damage_perm)
  then have "merged_agents sched d g = merged_agents id d g"
    by (simp add: merged_agents_def apply_combat_results_fst collect_perm [OF set dist])
  then show "agents_tbl (run_round sched d g) = agents_tbl (run_round id d g)"
    by (simp add: run_round_agents)
  show "combat_log (run_round sched d g) =
      combat_log g @ map (Pair (round_num g + 1)) (hits (combat_buffer (sched ?ts)))"
    by (rule run_round_log)
  have "mset (hits (combat_buffer (sched ?ts))) = mset (hits (combat_buffer ?ts))"
    unfolding mset_hits buf ..
  then show "mset (combat_log (run_round sched d g)) = mset (combat_log (run_round id d g))"
    by (simp add: run_round_log)
qed

theorem merged_agents_order_independent_witness:
  "distinct (map agent_id (agents_tbl (two_on_one 80))) \<and>
   agents_tbl (run_round rev (\<lambda>i k. 0) (two_on_one 80)) =
     agents_tbl (run_round id (\<lambda>i k. 0) (two_on_one 80)) \<and>
   mset (combat_log (run_round rev (\<lambda>i k. 0) (two_on_one 80))) =
     mset (combat_log (run_round id (\<lambda>i k. 0) (two_on_one 80)))"
proof -
  have dist: "distinct (map agent_id (agents_tbl (two_on_one 80)))"
    and good: "\<forall>a\<in>set (agents_tbl (two_on_one 80)). nonneg_multiplier a"
    by (simp_all add: two_on_one_def spawn_human_def spawn_zombie_def empty_role_data_def
        nonneg_multiplier_def)
  have perm: "mset (rev (submit_all (two_on_one 80) (\<lambda>i k. 0))) =
      mset (submit_all (two_on_one 80) (\<lambda>i k. 0))"
    by simp
  from merged_agents_order_independent [of rev "two_on_one 80" "\<lambda>i k. 0", OF perm dist good] dist
  show ?thesis by blast
qed

subsection \<open>C2\<close>

text \<open>
  C2, as the claim states it, fails. In \<open>two_on_one 10\<close> both humans attack the zombie of
  health 10 for 10 each. After the first result is applied the zombie has health 0 and
  is not alive; the second result is applied all the same and both events are logged.
\<close>

theorem attack_on_dead_target_is_logged:
  "combat_buffer (submit_all (two_on_one 10) (\<lambda>i k. 0)) =
     [Some (hit 1 3 10), Some (hit 2 3 10), None] \<and>
   map_option (\<lambda>a. (health a, is_alive a))
     (fst (apply_combat 1 (Some (hit 1 3 10))
        (collect (submit_all (two_on_one 10) (\<lambda>i k. 0)), [])) 3) = Some (0, False) \<and>
   combat_log (run_round id (\<lambda>i k. 0) (two_on_one 10)) = [(1, hit 1 3 10), (1, hit 2 3 10)] \<and>
   map (\<lambda>a. (health a, is_alive a)) (agents_tbl (run_round id (\<lambda>i k. 0) (two_on_one 10))) =
     [(100, True), (100, True), (0, False)]"
  by (simp add: two_on_one_tasks two_on_one_log_id merge_eval spawn_human_def spawn_zombie_def
      hit_def) (simp add: two_on_one_def spawn_human_def spawn_zombie_def merge_eval)

text \<open>
  C2, as amended. An attack of non-negative damage applied to a target that is already
  dead (health 0, not alive) leaves the dictionary of agents unchanged, and its event is
  still appended to the log: the log grows by every result of the buffer that is not a
  miss, in buffer order. For every buffer of non-negative damages, the agent under a key
  ends the merge as it was if no result is aimed at it, and otherwise with health
  \<open>max 0 (health - total)\<close>, where \<open>total\<close> is the sum of the damages aimed at it, and
  alive only if it was alive and \<open>health - total\<close> is positive. So a target attacked for
  at least its health in total ends with health 0 and not alive, however many attacks
  the buffer holds and in whatever order.
\<close>

theorem apply_combat_dead_target:
  "(ad (target_id c) = Some t \<and> health t = 0 \<and> \<not> is_alive t \<and> 0 \<le> damage c \<longrightarrow>
      apply_combat rn (Some c) (ad, lg) = (ad, lg @ [(rn, c)])) \<and>
   snd (apply_combat_results rn buf (ad, lg)) = lg @ map (Pair rn) (hits buf) \<and>
   ((\<forall>e\<in>set buf. nonneg_entry e) \<longrightarrow>
      fst (apply_combat_results rn buf (ad, lg)) k =
        map_option (wounded (damages_on k buf)) (ad k) \<and>
      (ad k = Some u \<and> damages_on k buf \<noteq> [] \<and> health u \<le> sum_list (damages_on k buf) \<longrightarrow>
         fst (apply_combat_results rn buf (ad, lg)) k = Some (u\<lparr>health := 0, is_alive := False\<rparr>)))"
proof (intro conjI impI)
  assume "ad (target_id c) = Some t \<and> health t = 0 \<and> \<not> is_alive t \<and> 0 \<le> damage c"
  then show "apply_combat rn (Some c) (ad, lg) = (ad, lg @ [(rn, c)])"
    by (auto simp: apply_combat_Some take_damage_def Let_def fun_upd_idem)
next
  show "snd (apply_combat_results rn buf (ad, lg)) = lg @ map (Pair rn) (hits buf)"
    by (rule apply_combat_results_log)
next
  assume nonneg: "\<forall>e\<in>set buf. nonneg_entry e"
  then show key: "fst (apply_combat_results rn buf (ad, lg)) k =
      map_option (wounded (damages_on k buf)) (ad k)"
    by (rule apply_combat_results_key)
  assume "ad k = Some u \<and> damages_on k buf \<noteq> [] \<and> health u \<le> sum_list (damages_on k buf)"
  then show "fst (apply_combat_results rn buf (ad, lg)) k = Some (u\<lparr>health := 0, is_alive := False\<rparr>)"
    unfolding key by (simp add: wounded_def)
qed

theorem apply_combat_dead_target_witness:
  "apply_combat 1 (Some (hit 2 3 10))
     ([3 \<mapsto> (spawn_zombie 3 ''Zombie_1'' 0 1 None empty_role_data)\<lparr>health := 0, is_alive := False\<rparr>], [])
   = ([3 \<mapsto> (spawn_zombie 3 ''Zombie_1'' 0 1 None empty_role_data)\<lparr>health := 0, is_alive := False\<rparr>],
      [(1, hit 2 3 10)]) \<and>
   snd (apply_combat_results 1 [Some (hit 1 3 10), Some (hit 3 1 7), None, Some (hit 2 3 10)] (melee, []))
   = [(1, hit 1 3 10), (1, hit 3 1 7), (1, hit 2 3 10)] \<and>
   fst (apply_combat_results 1 [Some (hit 1 3 10), Some (hit 3 1 7), None, Some (hit 2 3 10)] (melee, [])) 3
   = Some ((spawn_zombie 3 ''Zombie_1'' 0 1 None empty_role_data)\<lparr>health := 0, is_alive := False\<rparr>) \<and>
   fst (apply_combat_results 1 [Some (hit 1 3 10), Some (hit 3 1 7), None, Some (hit 2 3 10)] (melee, [])) 1
   = Some ((spawn_human 1 ''Human_1'' 0 0)\<lparr>health := 93\<rparr>)"
  using apply_combat_dead_target
    [where ad = "[3 \<mapsto> (spawn_zombie 3 ''Zombie_1'' 0 1 None empty_role_data)\<lparr>health := 0, is_alive := False\<rparr>]"
       and c = "hit 2 3 10" and rn = 1 and lg = "[]" and buf = "[]"
       and t = "(spawn_zombie 3 ''Zombie_1'' 0 1 None empty_role_data)\<lparr>health := 0, is_alive := False\<rparr>"]
    apply_combat_dead_target
    [where ad = melee and buf = "[Some (hit 1 3 10), Some (hit 3 1 7), None, Some (hit 2 3 10)]"
       and rn = 1 and lg = "[]" and k = 3
       and u = "(spawn_zombie 3 ''Zombie_1'' 0 1 None empty_role_data)\<lparr>health := 15\<rparr>"]
    apply_combat_dead_target
    [where ad = melee and buf = "[Some (hit 1 3 10), Some (hit 3 1 7), None, Some (hit 2 3 10)]"
       and rn = 1 and lg = "[]" and k = 1]
  by (simp add: hit_def spawn_zombie_def spawn_human_def melee_def nonneg_entry_def
      damages_on_simps wounded_def)

subsection \<open>C3\<close>

text \<open>
  C3. \<^verbatim>\<open>process_human_turn\<close> gives the role to every role-less human within reach of an
  item of the snapshot and records a pickup for each of them, and \<^verbatim>\<open>run_round\<close> calls
  \<^verbatim>\<open>pick_up_item\<close> for every recorded pickup; nothing checks whether the item is taken.
  In \<open>medkit_race\<close> both humans are within reach of the one MedKit: both pickups are
  recorded, both humans become Doctors in the same round, and the item's owner is the
  human whose pickup was appended last, agent 2 when the tasks finish in submission
  order and agent 1 when they finish in the reverse order. \<^verbatim>\<open>Human.decide_action\<close> of
  \<^verbatim>\<open>zombie_game4.py\<close> picks an item up only if \<^verbatim>\<open>not nearest_item.picked_up\<close>.
\<close>

theorem medkit_race_both_doctors:
  "item_pickups (submit_all medkit_race (\<lambda>i k. 0)) = [(1, 1), (1, 2)] \<and>
   map role_name (agents_tbl (run_round id (\<lambda>i k. 0) medkit_race)) =
     [Some ''Doctor'', Some ''Doctor'', None] \<and>
   map picked_by_agent_id (items_tbl (run_round id (\<lambda>i k. 0) medkit_race)) = [Some 2] \<and>
   map picked_by_agent_id (items_tbl (run_round rev (\<lambda>i k. 0) medkit_race)) = [Some 1]"
  by (simp add: medkit_race_def submit_all_def worker_eval merge_eval)

subsection \<open>C4\<close>

text \<open>
  C4. The claim gives a Human attacker a base damage of at least
  \<open>floor (0.7 * attackPower)\<close>, 14 for the spawned Human of attack power 20.
  \<^verbatim>\<open>calculate_attack\<close> draws the base damage of every attacker from
  \<open>[int (0.5 * attack_power), attack_power]\<close>: for the spawned Human and the lowest
  draw, the event carries damage 10.
\<close>

theorem calculate_attack_human_low_draw:
  "calculate_attack (spawn_human 1 ''Human_1'' 0 0)
     (spawn_zombie 2 ''Zombie_1'' 0 1 None empty_role_data) (\<lambda>k. 0)
   = Inr (Some \<lparr>attacker_id = 1, target_id = 2, damage = 10, was_critical = False\<rparr>)"
  by (simp add: calculate_attack_def spawn_human_def spawn_zombie_def empty_role_data_def
      randint_def py_int_def Let_def)

subsection \<open>C5\<close>

text \<open>
  C5. Health invariant of a round. If the ids of the table are distinct and every row
  satisfies \<open>0 \<le> health \<le> max_health\<close> and \<open>is_alive \<longleftrightarrow> 0 < health\<close> and has no negative
  attack multiplier, then so does every row after the round, in whatever order the
  workers finish. Applying damage sets health to \<open>max 0 (health - damage)\<close> and clears
  the alive flag exactly when that is 0, and the self-heal never raises health above
  \<open>max_health\<close>.
\<close>

theorem health_invariant_preserved:
  assumes "mset (sched (submit_all g d)) = mset (submit_all g d)"
    and "distinct (map agent_id (agents_tbl g))"
    and good: "\<forall>a\<in>set (agents_tbl g). health_inv a \<and> nonneg_multiplier a"
  shows "(\<forall>a\<in>set (agents_tbl (run_round sched d g)). health_inv a \<and> nonneg_multiplier a) \<and>
    health (take_damage dmg t) = max 0 (health t - dmg) \<and>
    is_alive (take_damage dmg t) = (is_alive t \<and> 0 < health t - dmg) \<and>
    (health h \<le> max_health h \<longrightarrow> health (doctor_heal h) \<le> max_health h)"
proof (intro conjI ballI impI)
  fix a
  assume "a \<in> set (agents_tbl (run_round sched d g))"
  then obtain row where row: "row \<in> set (agents_tbl g)"
    and a: "a = (case merged_agents sched d g (agent_id row) of None \<Rightarrow> row
                 | Some u \<Rightarrow> update_row u row)"
    by (auto simp: run_round_agents batch_update_agents_def)
  from assms(1) have perm: "set (sched (submit_all g d)) = set (submit_all g d)"
    by (rule mset_eq_setD)
  have "health_inv a \<and> nonneg_multiplier a"
  proof (cases "merged_agents sched d g (agent_id row)")
    case None
    with a row good show ?thesis by simp
  next
    case (Some u)
    from merged_row [OF perm assms(2) row Some] obtain out where
      m: "merged_from g (row, Inr out) out u" and ws: "worker_sound (grid_size g) row out"
      by blast
    from m good have "health_inv u" "max_health u = max_health row"
      "role_data u = role_data (upd out)"
      by (simp_all add: merged_from_def)
    moreover from ws good row have "nonneg_multiplier (upd out)" by (simp add: worker_sound_def)
    ultimately show ?thesis
      using a Some by (simp add: health_inv_def nonneg_multiplier_def update_row_def)
  qed
  then show "health_inv a" and "nonneg_multiplier a" by simp_all
next
  show "health (take_damage dmg t) = max 0 (health t - dmg)"
    and "is_alive (take_damage dmg t) = (is_alive t \<and> 0 < health t - dmg)"
    using take_damage_effect [of dmg t] by simp_all
next
  assume "health h \<le> max_health h"
  then show "health (doctor_heal h) \<le> max_health h" by (rule doctor_heal_le_max)
qed

theorem health_invariant_preserved_witness:
  "list_all (\<lambda>a. health_inv a \<and> nonneg_multiplier a)
     (agents_tbl (run_round id (\<lambda>i k. 0) (two_on_one 10))) \<and>
   map (\<lambda>a. (health a, max_health a, is_alive a))
     (agents_tbl (run_round id (\<lambda>i k. 0) (two_on_one 10))) =
     [(100, 100, True), (100, 100, True), (0, 80, False)]"
proof -
  have "distinct (map agent_id (agents_tbl (two_on_one 10)))"
    and "\<forall>a\<in>set (agents_tbl (two_on_one 10)). health_inv a \<and> nonneg_multiplier a"
    by (simp_all add: two_on_one_def spawn_human_def spawn_zombie_def empty_role_data_def
        health_inv_def nonneg_multiplier_def)
  then have "\<forall>a\<in>set (agents_tbl (run_round id (\<lambda>i k. 0) (two_on_one 10))).
      health_inv a \<and> nonneg_multiplier a"
    using health_invariant_preserved [of id "two_on_one 10" "\<lambda>i k. 0"] by simp
  then have "list_all (\<lambda>a. health_inv a \<and> nonneg_multiplier a)
     (agents_tbl (run_round id (\<lambda>i k. 0) (two_on_one 10)))"
    by (simp add: list_all_iff)
  moreover have "map (\<lambda>a. (health a, max_health a, is_alive a))
     (agents_tbl (run_round id (\<lambda>i k. 0) (two_on_one 10))) =
     [(100, 100, True), (100, 100, True), (0, 80, False)]"
    by (simp add: two_on_one_tasks merge_eval spawn_human_def spawn_zombie_def hit_def)
       (simp add: two_on_one_def spawn_human_def spawn_zombie_def merge_eval)
  ultimately show ?thesis by simp
qed

subsection \<open>C6\<close>

text \<open>
  C6. Positions stay inside the grid. If the ids of the table are distinct, then in
  whatever order the workers finish every row keeps its id over a round, and a row
  whose position is inside the grid before the round has its position inside the grid
  after it: every step of a move is clamped, also the two steps of a Speed Zombie.
\<close>

theorem positions_stay_in_grid:
  assumes "mset (sched (submit_all g d)) = mset (submit_all g d)"
    and "distinct (map agent_id (agents_tbl g))"
  shows "list_all2 (\<lambda>row row'. agent_id row' = agent_id row \<and>
                     (in_grid (grid_size g) row \<longrightarrow> in_grid (grid_size g) row'))
           (agents_tbl g) (agents_tbl (run_round sched d g))"
  unfolding run_round_agents batch_update_agents_def
proof (rule list_all2_mapI)
  fix row
  assume row: "row \<in> set (agents_tbl g)"
  from assms(1) have perm: "set (sched (submit_all g d)) = set (submit_all g d)"
    by (rule mset_eq_setD)
  show "agent_id (case merged_agents sched d g (agent_id row) of None \<Rightarrow> row
                  | Some a \<Rightarrow> update_row a row) = agent_id row \<and>
        (in_grid (grid_size g) row \<longrightarrow>
         in_grid (grid_size g) (case merged_agents sched d g (agent_id row) of None \<Rightarrow> row
                                | Some a \<Rightarrow> update_row a row))"
  proof (cases "merged_agents sched d g (agent_id row)")
    case None
    then show ?thesis by simp
  next
    case (Some u)
    from merged_row [OF perm assms(2) row Some] obtain out where
      m: "merged_from g (row, Inr out) out u" and ws: "worker_sound (grid_size g) row out"
      by blast
    have "in_grid (grid_size g) (update_row u row) = in_grid (grid_size g) (upd out)"
      using m by (simp add: in_grid_def update_row_def merged_from_def)
    with ws Some show ?thesis by (simp add: worker_sound_def update_row_def)
  qed
qed

theorem positions_stay_in_grid_witness:
  "list_all2 (\<lambda>row row'. agent_id row' = agent_id row \<and>
                     (in_grid (grid_size speed_chase) row \<longrightarrow> in_grid (grid_size speed_chase) row'))
           (agents_tbl speed_chase) (agents_tbl (run_round id (\<lambda>i k. 0) speed_chase)) \<and>
   map (\<lambda>a. (agent_x a, agent_y a)) (agents_tbl (run_round id (\<lambda>i k. 0) speed_chase)) =
     [(1, 1), (3, 3)]"
proof -
  have "distinct (map agent_id (agents_tbl speed_chase))"
    by (simp add: speed_chase_def spawn_human_def spawn_zombie_def)
  then have "list_all2 (\<lambda>row row'. agent_id row' = agent_id row \<and>
                     (in_grid (grid_size speed_chase) row \<longrightarrow> in_grid (grid_size speed_chase) row'))
           (agents_tbl speed_chase) (agents_tbl (run_round id (\<lambda>i k. 0) speed_chase))"
    by (intro positions_stay_in_grid) simp_all
  moreover have "map (\<lambda>a. (agent_x a, agent_y a)) (agents_tbl (run_round id (\<lambda>i k. 0) speed_chase)) =
     [(1, 1), (3, 3)]"
    by (simp add: speed_chase_def submit_all_def worker_eval merge_eval numeral_2_eq_2)
  ultimately show ?thesis by simp
qed

subsection \<open>C7\<close>

text \<open>
  C7. For an agent with the Doctor role and a non-negative \<open>max_health\<close>, the self-heal
  fires exactly when \<open>health < 0.6 * max_health\<close> (that is \<open>5 * health < 3 * max_health\<close>)
  and a charge is left (a missing \<^verbatim>\<open>heal_charges\<close> key counts as 3). When it fires,
  health becomes \<open>min (health + floor (max_health / 2)) max_health\<close> and the charges go
  down by one; otherwise the agent is unchanged. The same holds of
  \<^verbatim>\<open>Doctor.use_special_ability\<close>.
\<close>

theorem doctor_special_ability:
  assumes "role_name h = Some ''Doctor''" and "0 \<le> max_health h"
  shows "doctor_heal h =
     (if 5 * health h < 3 * max_health h \<and> 0 < charges_left h
      then h\<lparr>health := min (health h + max_health h div 2) (max_health h),
             role_data := (role_data h)\<lparr>heal_charges := Some (charges_left h - 1)\<rparr>\<rparr>
      else h) \<and>
    use_special_ability c h =
     (if 5 * health h < 3 * max_health h \<and> 0 < c
      then (True, c - 1, h\<lparr>health := min (health h + max_health h div 2) (max_health h)\<rparr>)
      else (False, c, h))"
  using assms py_int_half [of "max_health h"]
  by (simp add: doctor_heal_def use_special_ability_def charges_left_def Let_def
      below_sixty_percent del: of_int_mult)

theorem doctor_special_ability_witness:
  "doctor_heal ((spawn_human 1 ''Human_1'' 0 0)\<lparr>health := 50, role_name := Some ''Doctor''\<rparr>)
   = (spawn_human 1 ''Human_1'' 0 0)\<lparr>health := 100, role_name := Some ''Doctor'',
        role_data := empty_role_data\<lparr>heal_charges := Some 2\<rparr>\<rparr>"
  using doctor_special_ability
    [of "(spawn_human 1 ''Human_1'' 0 0)\<lparr>health := 50, role_name := Some ''Doctor''\<rparr>"]
  by (simp add: spawn_human_def charges_left_def empty_role_data_def)

subsection \<open>C8\<close>

text \<open>
  C8. A worker that raises is isolated. \<^verbatim>\<open>run_round\<close> catches the exception of every
  \<^verbatim>\<open>future.result()\<close>, so the round is a total function of the tasks' results. If the
  worker of agent \<open>a\<close> raises (ids distinct, any completion order):

  \<^item> the round counter still advances;
  \<^item> the row of \<open>a\<close> is not written, no combat event logged in the round has \<open>a\<close> as
    attacker and no recorded pickup is by \<open>a\<close>;
  \<^item> the merge runs over what the other workers returned: the row of every agent whose
    worker returned is rewritten from that worker's output (position, role), wounded
    by the damages the round's buffer aims at it (with no negative attack multiplier
    in the table: health \<open>max 0 (health - total)\<close>, alive only if health is left); a
    row without a returned worker is unchanged; the events logged in this round are
    exactly the hits the workers returned, in completion order; the recorded pickups
    are exactly the pickups the workers returned, and the items are marked with them;
  \<^item> the game loop goes on from the state the round returns: if the game was not over
    and rounds were left, it ends at a later round, and it ends only when the game is
    over or \<open>max_rounds\<close> is reached.
\<close>

theorem worker_failure_isolated:
  assumes perm: "mset (sched (submit_all g d)) = mset (submit_all g d)"
    and dist: "distinct (map agent_id (agents_tbl g))"
    and fail: "(a, Inl e) \<in> set (submit_all g d)"
  shows "round_num (run_round sched d g) = round_num g + 1 \<and>
    list_all2 (\<lambda>row row'. agent_id row = agent_id a \<longrightarrow> row' = row)
      (agents_tbl g) (agents_tbl (run_round sched d g)) \<and>
    (\<forall>r\<in>set (drop (length (combat_log g)) (combat_log (run_round sched d g))).
        attacker_id (snd r) \<noteq> agent_id a) \<and>
    (\<forall>p\<in>set (item_pickups (sched (submit_all g d))). snd p \<noteq> agent_id a) \<and>
    list_all2 (\<lambda>row row'. \<forall>out. (row, Inr out) \<in> set (submit_all g d) \<longrightarrow>
                 agent_x row' = agent_x (upd out) \<and> agent_y row' = agent_y (upd out) \<and>
                 role_name row' = role_name (upd out) \<and> role_data row' = role_data (upd out))
      (agents_tbl g) (agents_tbl (run_round sched d g)) \<and>
    ((\<forall>x\<in>set (agents_tbl g). nonneg_multiplier x) \<longrightarrow>
       list_all2 (\<lambda>row row'. \<forall>out. (row, Inr out) \<in> set (submit_all g d) \<longrightarrow>
          row' = row\<lparr>health := health (wounded (damages_on (agent_id row)
                                     (combat_buffer (sched (submit_all g d)))) (upd out)),
                     is_alive := is_alive (wounded (damages_on (agent_id row)
                                     (combat_buffer (sched (submit_all g d)))) (upd out)),
                     agent_x := agent_x (upd out), agent_y := agent_y (upd out),
                     role_name := role_name (upd out), role_data := role_data (upd out)\<rparr>)
         (agents_tbl g) (agents_tbl (run_round sched d g))) \<and>
    list_all2 (\<lambda>row row'. (\<forall>out. (row, Inr out) \<notin> set (submit_all g d)) \<longrightarrow> row' = row)
      (agents_tbl g) (agents_tbl (run_round sched d g)) \<and>
    (\<forall>t\<in>set (submit_all g d). \<forall>out c. snd t = Inr out \<and> combat_out out = Some (Some c) \<longrightarrow>
        (round_num g + 1, c) \<in>
          set (drop (length (combat_log g)) (combat_log (run_round sched d g)))) \<and>
    (\<forall>t\<in>set (submit_all g d). \<forall>out p. snd t = Inr out \<and> pickup_out out = Some p \<longrightarrow>
        p \<in> set (item_pickups (sched (submit_all g d)))) \<and>
    combat_log (run_round sched d g) =
      combat_log g @
      map (Pair (round_num g + 1)) (List.map_filter returned_hit (sched (submit_all g d))) \<and>
    item_pickups (sched (submit_all g d)) =
      List.map_filter returned_pickup (sched (submit_all g d)) \<and>
    items_tbl (run_round sched d g) =
      map (pickup_effect (item_pickups (sched (submit_all g d)))) (items_tbl g) \<and>
    run_game_loop (\<lambda>r. sched) (\<lambda>r. d) max_rounds g =
      (if \<not> is_game_over g \<and> round_num g < max_rounds
       then run_game_loop (\<lambda>r. sched) (\<lambda>r. d) max_rounds (run_round sched d g) else g) \<and>
    (\<not> is_game_over g \<and> round_num g < max_rounds \<longrightarrow>
       round_num g < round_num (run_game_loop (\<lambda>r. sched) (\<lambda>r. d) max_rounds g)) \<and>
    (is_game_over (run_game_loop (\<lambda>r. sched) (\<lambda>r. d) max_rounds g) \<or>
     max_rounds \<le> round_num (run_game_loop (\<lambda>r. sched) (\<lambda>r. d) max_rounds g))"
proof (intro conjI)
  let ?ts = "submit_all g d"
  from perm have set: "set (sched ?ts) = set ?ts" by (rule mset_eq_setD)
  show "round_num (run_round sched d g) = round_num g + 1"
    by (simp add: run_round_def Let_def)
  have none: "merged_agents sched d g (agent_id a) = None"
    unfolding merged_agents_None collect_None set
    using failed_task_no_success [OF dist fail] by blast
  show "list_all2 (\<lambda>row row'. agent_id row = agent_id a \<longrightarrow> row' = row)
      (agents_tbl g) (agents_tbl (run_round sched d g))"
    unfolding run_round_agents batch_update_agents_def
    by (rule list_all2_mapI) (simp add: none)
  show "\<forall>r\<in>set (drop (length (combat_log g)) (combat_log (run_round sched d g))).
        attacker_id (snd r) \<noteq> agent_id a"
  proof
    fix r
    assume "r \<in> set (drop (length (combat_log g)) (combat_log (run_round sched d g)))"
    then have "snd r \<in> set (hits (combat_buffer (sched ?ts)))"
      by (auto simp: run_round_log)
    from combat_buffer_hit [OF this] set obtain t out where
      t: "t \<in> set ?ts" "snd t = Inr out" "combat_out out = Some (Some (snd r))" by auto
    from submit_all_mem(3) [OF t(1) t(2)] t(3) have "attacker_id (snd r) = agent_id (fst t)"
      by (simp add: worker_sound_def)
    with failed_task_no_success [OF dist fail t(1) t(2)] show "attacker_id (snd r) \<noteq> agent_id a"
      by simp
  qed
  show "\<forall>p\<in>set (item_pickups (sched ?ts)). snd p \<noteq> agent_id a"
  proof
    fix p
    assume "p \<in> set (item_pickups (sched ?ts))"
    from item_pickups_mem [OF this] set obtain t out where
      t: "t \<in> set ?ts" "snd t = Inr out" "pickup_out out = Some p" by auto
    from submit_all_mem(3) [OF t(1) t(2)] t(3) have "snd p = agent_id (fst t)"
      by (simp add: worker_sound_def)
    with failed_task_no_success [OF dist fail t(1) t(2)] show "snd p \<noteq> agent_id a" by simp
  qed
  show "list_all2 (\<lambda>row row'. \<forall>out. (row, Inr out) \<in> set ?ts \<longrightarrow>
                 agent_x row' = agent_x (upd out) \<and> agent_y row' = agent_y (upd out) \<and>
                 role_name row' = role_name (upd out) \<and> role_data row' = role_data (upd out))
      (agents_tbl g) (agents_tbl (run_round sched d g))"
    unfolding run_round_agents batch_update_agents_def
  proof (rule list_all2_mapI, intro allI impI)
    fix row out
    assume row: "row \<in> set (agents_tbl g)" and task: "(row, Inr out) \<in> set ?ts"
    let ?row' = "case merged_agents sched d g (agent_id row) of None \<Rightarrow> row
                 | Some a \<Rightarrow> update_row a row"
    from task set have "collect (sched ?ts) (agent_id row) \<noteq> None"
      unfolding collect_None by force
    then obtain u where u: "merged_agents sched d g (agent_id row) = Some u"
      using merged_agents_None [of sched d g "agent_id row"] by auto
    from merged_row [OF set dist row u] obtain out' where
      o: "(row, Inr out') \<in> set ?ts" "merged_from g (row, Inr out') out' u" by blast
    have "(row, Inr out') = (row, Inr out)"
      using task_unique [OF dist o(1) task] by simp
    with o(2) have "merged_from g (row, Inr out) out u" by simp
    then show "agent_x ?row' = agent_x (upd out) \<and> agent_y ?row' = agent_y (upd out) \<and>
        role_name ?row' = role_name (upd out) \<and> role_data ?row' = role_data (upd out)"
      by (simp add: u merged_from_def update_row_def)
  qed
  show "(\<forall>x\<in>set (agents_tbl g). nonneg_multiplier x) \<longrightarrow>
       list_all2 (\<lambda>row row'. \<forall>out. (row, Inr out) \<in> set ?ts \<longrightarrow>
          row' = row\<lparr>health := health (wounded (damages_on (agent_id row)
                                     (combat_buffer (sched ?ts))) (upd out)),
                     is_alive := is_alive (wounded (damages_on (agent_id row)
                                     (combat_buffer (sched ?ts))) (upd out)),
                     agent_x := agent_x (upd out), agent_y := agent_y (upd out),
                     role_name := role_name (upd out), role_data := role_data (upd out)\<rparr>)
         (agents_tbl g) (agents_tbl (run_round sched d g))"
    using run_round_rows [of sched g d, OF set dist] by blast
  show "list_all2 (\<lambda>row row'. (\<forall>out. (row, Inr out) \<notin> set ?ts) \<longrightarrow> row' = row)
      (agents_tbl g) (agents_tbl (run_round sched d g))"
    using set dist by (rule run_round_rows_unsubmitted)
  show "\<forall>t\<in>set ?ts. \<forall>out c. snd t = Inr out \<and> combat_out out = Some (Some c) \<longrightarrow>
        (round_num g + 1, c) \<in>
          set (drop (length (combat_log g)) (combat_log (run_round sched d g)))"
    using run_round_logs_hit [of sched g d, OF set] by blast
  show "\<forall>t\<in>set ?ts. \<forall>out p. snd t = Inr out \<and> pickup_out out = Some p \<longrightarrow>
        p \<in> set (item_pickups (sched ?ts))"
    using item_pickups_intro [of _ "sched ?ts"] set by blast
  show "combat_log (run_round sched d g) =
      combat_log g @ map (Pair (round_num g + 1)) (List.map_filter returned_hit (sched ?ts))"
    by (simp add: run_round_log hits_combat_buffer)
  show "item_pickups (sched ?ts) = List.map_filter returned_pickup (sched ?ts)"
    by (rule item_pickups_returned)
  show "items_tbl (run_round sched d g) = map (pickup_effect (item_pickups (sched ?ts))) (items_tbl g)"
    by (rule run_round_items)
  show loop: "run_game_loop (\<lambda>r. sched) (\<lambda>r. d) max_rounds g =
      (if \<not> is_game_over g \<and> round_num g < max_rounds
       then run_game_loop (\<lambda>r. sched) (\<lambda>r. d) max_rounds (run_round sched d g) else g)"
    by (subst run_game_loop.simps) simp
  show "\<not> is_game_over g \<and> round_num g < max_rounds \<longrightarrow>
       round_num g < round_num (run_game_loop (\<lambda>r. sched) (\<lambda>r. d) max_rounds g)"
  proof
    assume c: "\<not> is_game_over g \<and> round_num g < max_rounds"
    have "round_num (run_round sched d g) = round_num g + 1"
      by (simp add: run_round_def Let_def)
    with run_game_loop_round [of "run_round sched d g" "\<lambda>r. sched" "\<lambda>r. d" max_rounds] c loop
    show "round_num g < round_num (run_game_loop (\<lambda>r. sched) (\<lambda>r. d) max_rounds g)"
      by simp
  qed
  show "is_game_over (run_game_loop (\<lambda>r. sched) (\<lambda>r. d) max_rounds g) \<or>
     max_rounds \<le> round_num (run_game_loop (\<lambda>r. sched) (\<lambda>r. d) max_rounds g)"
    by (rule run_game_loop_final)
qed

theorem worker_failure_isolated_witness:
  "((spawn_human 1 ''Human_1'' 0 0)\<lparr>attack_power := - 1\<rparr>, Inl ValueError)
      \<in> set (submit_all faulty_worker (\<lambda>i k. 0)) \<and>
   distinct (map agent_id (agents_tbl faulty_worker)) \<and>
   list_all nonneg_multiplier (agents_tbl faulty_worker) \<and>
   round_num (run_round id (\<lambda>i k. 0) faulty_worker) = 1 \<and>
   list_all2 (\<lambda>row row'. agent_id row = 1 \<longrightarrow> row' = row)
      (agents_tbl faulty_worker) (agents_tbl (run_round id (\<lambda>i k. 0) faulty_worker)) \<and>
   list_all (\<lambda>r. attacker_id (snd r) \<noteq> 1) (combat_log (run_round id (\<lambda>i k. 0) faulty_worker)) \<and>
   combat_log (run_round id (\<lambda>i k. 0) faulty_worker) = [(1, hit 2 4 10)] \<and>
   map (\<lambda>a. (health a, is_alive a, role_name a))
     (agents_tbl (run_round id (\<lambda>i k. 0) faulty_worker)) =
     [(100, True, None), (100, True, None), (100, True, Some ''Doctor''), (70, True, None)] \<and>
   map (\<lambda>i. (picked_up i, picked_by_agent_id i))
     (items_tbl (run_round id (\<lambda>i k. 0) faulty_worker)) = [(True, Some 3)]"
proof -
  let ?bad = "(spawn_human 1 ''Human_1'' 0 0)\<lparr>attack_power := - 1\<rparr>"
  have fail: "(?bad, Inl ValueError) \<in> set (submit_all faulty_worker (\<lambda>i k. 0))"
    by (simp add: faulty_worker_tasks)
  have dist: "distinct (map agent_id (agents_tbl faulty_worker))"
    by (simp add: faulty_worker_def spawn_human_def spawn_zombie_def)
  have perm: "mset (id (submit_all faulty_worker (\<lambda>i k. 0))) = mset (submit_all faulty_worker (\<lambda>i k. 0))"
    by simp
  have id1: "agent_id ?bad = 1" and r0: "round_num faulty_worker = 0"
    and l0: "combat_log faulty_worker = []"
    by (simp_all add: spawn_human_def faulty_worker_def)
  from worker_failure_isolated [of id faulty_worker "\<lambda>i k. 0", OF perm dist fail]
  have "round_num (run_round id (\<lambda>i k. 0) faulty_worker) = 1 \<and>
    list_all2 (\<lambda>row row'. agent_id row = 1 \<longrightarrow> row' = row)
      (agents_tbl faulty_worker) (agents_tbl (run_round id (\<lambda>i k. 0) faulty_worker)) \<and>
    (\<forall>r\<in>set (combat_log (run_round id (\<lambda>i k. 0) faulty_worker)). attacker_id (snd r) \<noteq> 1)"
    by (simp add: id1 r0 l0)
  moreover have "list_all nonneg_multiplier (agents_tbl faulty_worker)"
    by (simp add: faulty_worker_def spawn_human_def spawn_zombie_def empty_role_data_def
        nonneg_multiplier_def)
  ultimately show ?thesis
    using fail dist faulty_worker_round by (simp add: list_all_iff)
qed

subsection \<open>C9\<close>

text \<open>
  C9. \<^verbatim>\<open>assign_role_to_human\<close> raises \<^verbatim>\<open>attack_power\<close> on the worker's copy only, and
  \<^verbatim>\<open>batch_update_agents\<close> does not write that column. In \<open>sword_duel\<close> the human picks
  up the Sword in round 1; its row then has the Hunter role and \<^verbatim>\<open>attack_power\<close> 20, and
  in round 2 the highest draw of its attack gives damage \<open>2 * 20 = 40\<close>: the base damage
  is drawn from \<open>[10, 20]\<close>, not from the boosted \<open>[15, 30]\<close>.
\<close>

theorem hunter_draws_from_base:
  "map attack_power (agents_tbl (run_round id high_draws sword_duel)) = [20, 15] \<and>
   combat_log (run_round id high_draws (run_round id high_draws sword_duel)) = [(2, hit 1 2 40)]"
  unfolding sword_duel_round_1
  by (simp add: sword_duel_1_def high_draws_def submit_all_def worker_eval merge_eval hit_def)

subsection \<open>C10\<close>

text \<open>
  C10. An agent whose snapshot holds no agent of the other faction neither attacks nor
  moves. The zombie's worker returns the zombie as it is. The human's worker appends no
  combat result and returns the human after the self-heal, with the role of the item in
  reach if there is one: identity, faction, \<open>max_health\<close>, \<open>base_attack_power\<close>, the alive
  flag and the position are those of the input.
\<close>

theorem turn_without_opponents:
  "(humans gs = [] \<longrightarrow>
      process_zombie_turn n z gs d = Inr \<lparr>upd = z, combat_out = None, pickup_out = None\<rparr>) \<and>
   (zombies gs = [] \<longrightarrow>
      (\<exists>out. process_human_turn n h gs d = Inr out \<and> combat_out out = None \<and>
         same_identity h (upd out) \<and>
         upd out = (case item_in_reach (doctor_heal h) gs of
                      None \<Rightarrow> doctor_heal h
                    | Some it \<Rightarrow> assign_role_to_human (doctor_heal h) it)))"
proof (intro conjI impI)
  assume "humans gs = []"
  then show "process_zombie_turn n z gs d = Inr \<lparr>upd = z, combat_out = None, pickup_out = None\<rparr>"
    by (simp add: process_zombie_turn_def)
next
  assume z: "zombies gs = []"
  show "\<exists>out. process_human_turn n h gs d = Inr out \<and> combat_out out = None \<and>
         same_identity h (upd out) \<and>
         upd out = (case item_in_reach (doctor_heal h) gs of
                      None \<Rightarrow> doctor_heal h
                    | Some it \<Rightarrow> assign_role_to_human (doctor_heal h) it)"
  proof (cases "item_in_reach (doctor_heal h) gs")
    case None
    then show ?thesis using z same_identity_heal [of h]
      by (simp add: process_human_turn_def Let_def)
  next
    case (Some it)
    have "same_identity h (assign_role_to_human (doctor_heal h) it)"
      using same_identity_heal same_identity_assign by (rule same_identity_trans)
    then show ?thesis using Some by (simp add: process_human_turn_def Let_def)
  qed
qed

theorem turn_without_opponents_witness:
  "process_zombie_turn 20 (spawn_zombie 2 ''Zombie_1'' 5 5 None empty_role_data)
      \<lparr>humans = [], zombies = [spawn_zombie 2 ''Zombie_1'' 5 5 None empty_role_data], items = []\<rparr>
      (\<lambda>k. 0)
    = Inr \<lparr>upd = spawn_zombie 2 ''Zombie_1'' 5 5 None empty_role_data,
           combat_out = None, pickup_out = None\<rparr> \<and>
   (\<exists>out. process_human_turn 20 (spawn_human 1 ''Human_1'' 0 0)
       \<lparr>humans = [spawn_human 1 ''Human_1'' 0 0], zombies = [], items = []\<rparr> (\<lambda>k. 0) = Inr out \<and>
      combat_out out = None \<and> upd out = spawn_human 1 ''Human_1'' 0 0)"
proof -
  have h: "doctor_heal (spawn_human 1 ''Human_1'' 0 0) = spawn_human 1 ''Human_1'' 0 0"
    by (simp add: doctor_heal_def spawn_human_def)
  show ?thesis
    using turn_without_opponents
      [of "\<lparr>humans = [], zombies = [spawn_zombie 2 ''Zombie_1'' 5 5 None empty_role_data],
            items = []\<rparr>" 20 "spawn_zombie 2 ''Zombie_1'' 5 5 None empty_role_data" "\<lambda>k. 0"]
      turn_without_opponents
      [of "\<lparr>humans = [spawn_human 1 ''Human_1'' 0 0], zombies = [], items = []\<rparr>"
          20 _ "\<lambda>k. 0" "spawn_human 1 ''Human_1'' 0 0"]
    by (auto simp: h item_in_reach_def)
qed


end
